theory Spec2Isabelle
  imports Main
begin

section \<open>Text, bytes and the store keys (app/jobs.py, app/main.py)\<close>

text \<open>
  Python text is represented by its UTF-8 byte sequence, so a \<open>str\<close> and the \<open>bytes\<close>
  it encodes to are the same list of 8-bit characters and \<open>s.encode("utf-8")\<close> is the
  identity on that representation.
\<close>

type_synonym bytes = string

definition py_b :: "string \<Rightarrow> bytes" where
  \<comment> \<open>jobs.py \<open>_b\<close>: \<open>s.encode("utf-8")\<close>\<close>
  "py_b s = s"

definition k_media :: "string \<Rightarrow> string" where
  \<comment> \<open>jobs.py: \<open>f"yt:media:{video_id}"\<close>\<close>
  "k_media video_id = ''yt:media:'' @ video_id"

definition k_lock :: "string \<Rightarrow> string" where
  \<comment> \<open>jobs.py: \<open>f"yt:lock:{video_id}"\<close>\<close>
  "k_lock video_id = ''yt:lock:'' @ video_id"

definition lock_key :: "string \<Rightarrow> bytes" where
  \<comment> \<open>main.py, local variable of \<open>ensure_cache_request\<close>:
      \<open>f"yt:lock:{video_id}".encode("utf-8")\<close>\<close>
  "lock_key video_id = ''yt:lock:'' @ video_id"

definition last_job_key :: "string \<Rightarrow> bytes" where
  \<comment> \<open>main.py, argument of the last \<open>r.set\<close> of \<open>ensure_cache_request\<close>:
      \<open>f"yt:last_job:{video_id}".encode("utf-8")\<close>\<close>
  "last_job_key video_id = ''yt:last_job:'' @ video_id"


section \<open>Python text helpers\<close>

definition py_isspace :: "char \<Rightarrow> bool" where
  \<comment> \<open>the whitespace characters of \<open>str.strip()\<close> in the ASCII range: tab, line feed,
      vertical tab, form feed, carriage return, the separators 0x1C..0x1F and the space\<close>
  "py_isspace c \<longleftrightarrow> (let n = (of_char c :: nat) in (9 \<le> n \<and> n \<le> 13) \<or> (28 \<le> n \<and> n \<le> 32))"

definition py_strip :: "string \<Rightarrow> string" where
  \<comment> \<open>\<open>s.strip()\<close>\<close>
  "py_strip s = rev (dropWhile py_isspace (rev (dropWhile py_isspace s)))"

definition digit_char :: "nat \<Rightarrow> char" where
  "digit_char d = char_of (48 + d)"

fun digits :: "nat \<Rightarrow> string" where
  "digits n = (if n < 10 then [digit_char n] else digits (n div 10) @ [digit_char (n mod 10)])"

declare digits.simps [simp del]

definition str_int :: "int \<Rightarrow> string" where
  \<comment> \<open>\<open>str(i)\<close>, also the \<open>{i}\<close> of an f-string and the integer output of \<open>json.dumps\<close>\<close>
  "str_int i = (if i < 0 then CHR ''-'' # digits (nat (- i)) else digits (nat i))"

definition os_path_join :: "string \<Rightarrow> string \<Rightarrow> string" where
  \<comment> \<open>\<open>os.path.join(a, b)\<close> of posixpath: an absolute \<open>b\<close> replaces \<open>a\<close>; a separator is
      added unless \<open>a\<close> is empty or already ends with one\<close>
  "os_path_join a b =
     (if b \<noteq> [] \<and> hd b = CHR ''/'' then b
      else if a = [] \<or> last a = CHR ''/'' then a @ b
      else a @ ''/'' @ b)"


section \<open>Errors\<close>

datatype py_error =
    RuntimeError string    \<comment> \<open>raised by \<open>download_av_job\<close>, with its message\<close>
  | TimeoutExpired         \<comment> \<open>\<open>subprocess.TimeoutExpired\<close> out of \<open>subprocess.run\<close>\<close>
  | OSError                \<comment> \<open>\<open>os.makedirs\<close> or the launch of the tool failing\<close>
  | JSONDecodeError        \<comment> \<open>\<open>json.loads\<close> on a text that is not a JSON document\<close>


section \<open>The serialisation of a metadata record (json.dumps, json.loads)\<close>

text \<open>
  \<open>store_media\<close> writes \<open>json.dumps(payload, ensure_ascii=False).encode("utf-8")\<close> and
  \<open>get_media\<close> reads it back with \<open>json.loads(raw.decode("utf-8"))\<close>. Both are functions of
  Python's standard library; they are written out here for the documents this program
  stores: one JSON object whose values are strings, integers, booleans or null.
  \<^item> \<open>json_dumps\<close> is the encoder with its default separators \<open>", "\<close> and \<open>": "\<close>; with
    \<open>ensure_ascii=False\<close> it escapes only the quote, the backslash and the control
    characters below 0x20.
  \<^item> \<open>json_loads\<close> is the decoder: insignificant whitespace, the escapes of a JSON string
    (a \<open>\uXXXX\<close> escape is stored as the UTF-8 bytes of its code point), integers, and the
    literals. A later duplicate key overwrites the earlier one. A nested value, a
    float or a surrogate escape is outside the modelled fragment and is reported as a
    decoding error.
\<close>

datatype json = JNull | JBool bool | JInt int | JStr string
  \<comment> \<open>the values of a stored dict: \<open>None\<close>, \<open>bool\<close>, \<open>int\<close>, \<open>str\<close>\<close>

type_synonym pydict = "(string \<times> json) list"
  \<comment> \<open>a \<open>dict\<close> with string keys, in insertion order\<close>

fun dict_set :: "pydict \<Rightarrow> string \<Rightarrow> json \<Rightarrow> pydict" where
  "dict_set [] k v = [(k, v)]"
| "dict_set ((k', v') # d) k v = (if k' = k then (k, v) # d else (k', v') # dict_set d k v)"

definition dict_get :: "pydict \<Rightarrow> string \<Rightarrow> json option" where
  "dict_get d k = map_of d k"

fun truthy :: "json \<Rightarrow> bool" where
  "truthy JNull = False"
| "truthy (JBool b) = b"
| "truthy (JInt i) = (i \<noteq> 0)"
| "truthy (JStr s) = (s \<noteq> [])"

definition hex_char :: "nat \<Rightarrow> char" where
  "hex_char d = (if d < 10 then char_of (48 + d) else char_of (87 + d))"

definition py_encode_char :: "char \<Rightarrow> string" where
  "py_encode_char c =
     (if c = CHR 0x22 then [CHR 0x5C, CHR 0x22]
      else if c = CHR 0x5C then [CHR 0x5C, CHR 0x5C]
      else if c = CHR 0x0A then [CHR 0x5C, CHR ''n'']
      else if c = CHR 0x0D then [CHR 0x5C, CHR ''r'']
      else if c = CHR 0x09 then [CHR 0x5C, CHR ''t'']
      else if c = CHR 0x08 then [CHR 0x5C, CHR ''b'']
      else if c = CHR 0x0C then [CHR 0x5C, CHR ''f'']
      else if (of_char c :: nat) < 32
        then [CHR 0x5C, CHR ''u'', CHR ''0'', CHR ''0'',
              hex_char (of_char c div 16), hex_char (of_char c mod 16)]
      else [c])"

definition py_encode_basestring :: "string \<Rightarrow> string" where
  "py_encode_basestring s = CHR 0x22 # concat (map py_encode_char s) @ [CHR 0x22]"

fun encode_value :: "json \<Rightarrow> string" where
  "encode_value JNull = ''null''"
| "encode_value (JBool b) = (if b then ''true'' else ''false'')"
| "encode_value (JInt i) = str_int i"
| "encode_value (JStr s) = py_encode_basestring s"

definition encode_item :: "string \<times> json \<Rightarrow> string" where
  "encode_item kv = py_encode_basestring (fst kv) @ '': '' @ encode_value (snd kv)"

fun join_items :: "string list \<Rightarrow> string" where
  "join_items [] = []"
| "join_items [x] = x"
| "join_items (x # y # ys) = x @ '', '' @ join_items (y # ys)"

definition json_dumps :: "pydict \<Rightarrow> string" where
  "json_dumps d = CHR ''{'' # join_items (map encode_item d) @ ''}''"


definition is_ws :: "char \<Rightarrow> bool" where
  "is_ws c \<longleftrightarrow> c = CHR '' '' \<or> c = CHR 0x09 \<or> c = CHR 0x0A \<or> c = CHR 0x0D"

definition skip_ws :: "string \<Rightarrow> string" where
  "skip_ws cs = dropWhile is_ws cs"

definition is_digit :: "char \<Rightarrow> bool" where
  "is_digit c \<longleftrightarrow> (48::nat) \<le> of_char c \<and> of_char c \<le> (57::nat)"

definition digit_val :: "char \<Rightarrow> nat" where
  "digit_val c = of_char c - 48"

definition nat_of_digits :: "string \<Rightarrow> nat" where
  "nat_of_digits ds = foldl (\<lambda>a c. 10 * a + digit_val c) 0 ds"

definition hex_val :: "char \<Rightarrow> nat option" where
  "hex_val c =
     (let n = (of_char c :: nat) in
      if 48 \<le> n \<and> n \<le> 57 then Some (n - 48)
      else if 97 \<le> n \<and> n \<le> 102 then Some (n - 87)
      else if 65 \<le> n \<and> n \<le> 70 then Some (n - 55)
      else None)"

definition hex4 :: "char \<Rightarrow> char \<Rightarrow> char \<Rightarrow> char \<Rightarrow> nat option" where
  "hex4 a b c d =
     (case (hex_val a, hex_val b, hex_val c, hex_val d) of
        (Some x, Some y, Some z, Some w) \<Rightarrow> Some (((x * 16 + y) * 16 + z) * 16 + w)
      | _ \<Rightarrow> None)"

definition utf8 :: "nat \<Rightarrow> string option" where
  "utf8 cp =
     (if cp < 0x80 then Some [char_of cp]
      else if cp < 0x800 then Some [char_of (0xC0 + cp div 64), char_of (0x80 + cp mod 64)]
      else if 0xD800 \<le> cp \<and> cp < 0xE000 then None
      else Some [char_of (0xE0 + cp div 4096), char_of (0x80 + (cp div 64) mod 64),
                 char_of (0x80 + cp mod 64)])"

definition unescape :: "char \<Rightarrow> char option" where
  "unescape e =
     (if e = CHR 0x22 then Some (CHR 0x22)
      else if e = CHR 0x5C then Some (CHR 0x5C)
      else if e = CHR ''/'' then Some (CHR ''/'')
      else if e = CHR ''b'' then Some (CHR 0x08)
      else if e = CHR ''f'' then Some (CHR 0x0C)
      else if e = CHR ''n'' then Some (CHR 0x0A)
      else if e = CHR ''r'' then Some (CHR 0x0D)
      else if e = CHR ''t'' then Some (CHR 0x09)
      else None)"

definition prepend :: "string \<Rightarrow> (string \<times> string) option \<Rightarrow> (string \<times> string) option" where
  "prepend bs r = map_option (\<lambda>(s, t). (bs @ s, t)) r"

fun scanstring :: "string \<Rightarrow> (string \<times> string) option" where
  "scanstring [] = None"
| "scanstring (c # cs) =
     (if c = CHR 0x22 then Some ([], cs)
      else if c = CHR 0x5C then
        (case cs of
           [] \<Rightarrow> None
         | e # r \<Rightarrow>
             if e = CHR ''u'' then
               (case r of
                  h1 # h2 # h3 # h4 # r' \<Rightarrow>
                    (case hex4 h1 h2 h3 h4 of
                       None \<Rightarrow> None
                     | Some cp \<Rightarrow>
                         (case utf8 cp of
                            None \<Rightarrow> None
                          | Some bs \<Rightarrow> prepend bs (scanstring r')))
                | _ \<Rightarrow> None)
             else
               (case unescape e of
                  None \<Rightarrow> None
                | Some ch \<Rightarrow> prepend [ch] (scanstring r)))
      else if (of_char c :: nat) < 32 then None
      else prepend [c] (scanstring cs))"

definition scan_int :: "string \<Rightarrow> (int \<times> string) option" where
  "scan_int cs =
     (let neg = (cs \<noteq> [] \<and> hd cs = CHR ''-'');
          ds = (if neg then tl cs else cs)
      in case ds of
           [] \<Rightarrow> None
         | d # r \<Rightarrow>
             if \<not> is_digit d then None
             else
               let (n, rest) = (if d = CHR ''0'' then (0, r)
                                else (nat_of_digits (d # takeWhile is_digit r), dropWhile is_digit r))
               in if rest \<noteq> [] \<and> hd rest \<in> {CHR ''.'', CHR ''e'', CHR ''E''} then None
                  else Some (if neg then - int n else int n, rest))"

definition scan_value :: "string \<Rightarrow> (json \<times> string) option" where
  "scan_value cs =
     (case cs of
        [] \<Rightarrow> None
      | c # r \<Rightarrow>
          if c = CHR 0x22 then map_option (\<lambda>(s, t). (JStr s, t)) (scanstring r)
          else if take 4 cs = ''null'' then Some (JNull, drop 4 cs)
          else if take 4 cs = ''true'' then Some (JBool True, drop 4 cs)
          else if take 5 cs = ''false'' then Some (JBool False, drop 5 cs)
          else map_option (\<lambda>(i, t). (JInt i, t)) (scan_int cs))"

lemma scanstring_shorter: "scanstring cs = Some (s, r) \<Longrightarrow> length r < length cs"
proof (induction cs arbitrary: s r rule: scanstring.induct)
  case 1
  then show ?case by simp
next
  case (2 c cs)
  then show ?case
    by (fastforce simp: prepend_def split: if_splits list.splits option.splits)
qed


lemma skip_ws_length: "length (skip_ws cs) \<le> length cs"
  by (simp add: skip_ws_def length_dropWhile_le)

lemma scan_int_shorter: "scan_int cs = Some (i, r) \<Longrightarrow> length r < length cs"
proof -
  have d: "length (dropWhile is_digit xs) \<le> length xs" for xs
    by (rule length_dropWhile_le)
  assume "scan_int cs = Some (i, r)"
  then show ?thesis
    using d[of "tl (tl cs)"] d[of "tl cs"]
    by (cases cs; cases "tl cs")
       (auto simp: scan_int_def Let_def le_imp_less_Suc split: list.splits if_splits prod.splits)
qed

lemma scan_value_shorter: "scan_value cs = Some (v, r) \<Longrightarrow> length r < length cs"
  by (cases cs)
     (auto simp: scan_value_def split: if_splits dest!: scanstring_shorter scan_int_shorter)

function scan_members :: "pydict \<Rightarrow> string \<Rightarrow> (pydict \<times> string) option" where
  "scan_members acc cs =
     (case cs of
        [] \<Rightarrow> None
      | q # r \<Rightarrow>
          if q \<noteq> CHR 0x22 then None
          else
            (case scanstring r of
               None \<Rightarrow> None
             | Some (k, r1) \<Rightarrow>
                 (case skip_ws r1 of
                    [] \<Rightarrow> None
                  | c # r2 \<Rightarrow>
                      if c \<noteq> CHR '':'' then None
                      else
                        (case scan_value (skip_ws r2) of
                           None \<Rightarrow> None
                         | Some (v, r3) \<Rightarrow>
                             (case skip_ws r3 of
                                [] \<Rightarrow> None
                              | e # r4 \<Rightarrow>
                                  if e = CHR ''}'' then Some (dict_set acc k v, r4)
                                  else if e = CHR '','' then scan_members (dict_set acc k v) (skip_ws r4)
                                  else None)))))"
  by pat_completeness auto
termination
proof (relation "measure (\<lambda>(acc, cs). length cs)", goal_cases)
  case 1
  show ?case by simp
next
  case (2 acc cs q r x2 k r1 c r2 x2a v r3 e r4)
  have a: "length r1 < length r" using 2 by (auto dest: scanstring_shorter)
  have b: "length (c # r2) \<le> length r1" using 2 skip_ws_length[of r1] by simp
  have c: "length r3 < length (skip_ws r2)" using 2 by (auto dest: scan_value_shorter)
  have d: "length (skip_ws r2) \<le> length r2" by (rule skip_ws_length)
  have e: "length (e # r4) \<le> length r3" using 2 skip_ws_length[of r3] by simp
  have f: "length (skip_ws r4) \<le> length r4" by (rule skip_ws_length)
  from a b c d e f 2 show ?case by simp
qed

declare scan_members.simps [simp del]

definition json_loads :: "string \<Rightarrow> py_error + pydict" where
  "json_loads s =
     (case skip_ws s of
        [] \<Rightarrow> Inl JSONDecodeError
      | c # r \<Rightarrow>
          if c \<noteq> CHR ''{'' then Inl JSONDecodeError
          else
            (case skip_ws r of
               [] \<Rightarrow> Inl JSONDecodeError
             | e # r1 \<Rightarrow>
                 (case (if e = CHR ''}'' then Some ([], r1) else scan_members [] (e # r1)) of
                    None \<Rightarrow> Inl JSONDecodeError
                  | Some (d, r2) \<Rightarrow>
                      if skip_ws r2 = [] then Inr d else Inl JSONDecodeError)))"


lemma hex_val_hex_char: "d < 16 \<Longrightarrow> hex_val (hex_char d) = Some d"
  by (auto simp: hex_val_def hex_char_def Let_def)

lemma hex_val_zero: "hex_val (CHR ''0'') = Some 0"
  by (simp add: hex_val_def)

lemma scanstring_control:
  assumes "(of_char c :: nat) < 32"
  shows "scanstring (CHR 0x5C # CHR ''u'' # CHR ''0'' # CHR ''0'' #
            hex_char (of_char c div 16) # hex_char (of_char c mod 16) # cs)
         = prepend [c] (scanstring cs)"
proof -
  let ?n = "of_char c :: nat"
  have "?n div 16 < 16" "?n mod 16 < 16" using assms by auto
  then have h: "hex4 (CHR ''0'') (CHR ''0'') (hex_char (?n div 16)) (hex_char (?n mod 16)) = Some ?n"
    by (simp add: hex4_def hex_val_hex_char hex_val_zero)
  have u: "utf8 ?n = Some [c]" using assms by (simp add: utf8_def)
  show ?thesis by (simp add: h u)
qed

lemma scanstring_encode_char:
  "scanstring (py_encode_char c @ cs) = prepend [c] (scanstring cs)"
proof (cases "(of_char c :: nat) < 32")
  case True
  then show ?thesis
    using scanstring_control[OF True, of cs]
    by (auto simp: py_encode_char_def unescape_def)
next
  case False
  then show ?thesis
    by (auto simp: py_encode_char_def unescape_def)
qed

lemma scanstring_encoded:
  "scanstring (concat (map py_encode_char s) @ CHR 0x22 # rest) = Some (s, rest)"
proof (induction s)
  case Nil
  show ?case by simp
next
  case (Cons c s)
  have "scanstring (concat (map py_encode_char (c # s)) @ CHR 0x22 # rest)
        = scanstring (py_encode_char c @ (concat (map py_encode_char s) @ CHR 0x22 # rest))"
    by simp
  also have "\<dots> = prepend [c] (scanstring (concat (map py_encode_char s) @ CHR 0x22 # rest))"
    by (rule scanstring_encode_char)
  also have "\<dots> = Some (c # s, rest)"
    by (simp add: Cons.IH prepend_def)
  finally show ?case .
qed


lemma digit_char_0: "digit_char 0 = CHR ''0''"
proof -
  have "(of_char (CHR ''0'') :: nat) = 48" by simp
  then have "char_of (48::nat) = CHR ''0''" by (metis char_of_char)
  then show ?thesis by (simp add: digit_char_def)
qed

lemma is_digit_digit_char: "d < 10 \<Longrightarrow> is_digit (digit_char d)"
  by (simp add: is_digit_def digit_char_def)

lemma digit_val_digit_char: "d < 10 \<Longrightarrow> digit_val (digit_char d) = d"
  by (simp add: digit_val_def digit_char_def)

lemma digit_char_zero_iff: "d < 10 \<Longrightarrow> digit_char d = CHR ''0'' \<longleftrightarrow> d = 0"
proof -
  assume d: "d < 10"
  have "digit_val (digit_char d) = d" using d by (rule digit_val_digit_char)
  moreover have "digit_val (CHR ''0'') = 0" by (simp add: digit_val_def)
  moreover have "digit_char 0 = CHR ''0''" by (rule digit_char_0)
  ultimately show ?thesis by metis
qed

lemma digits_all_digit: "\<forall>c \<in> set (digits n). is_digit c"
proof (induction n rule: digits.induct)
  case (1 n)
  show ?case
  proof (cases "n < 10")
    case True
    then show ?thesis by (simp add: digits.simps[of n] is_digit_digit_char)
  next
    case False
    then show ?thesis using 1 by (simp add: digits.simps[of n] is_digit_digit_char)
  qed
qed

lemma digits_nonempty: "digits n \<noteq> []"
  by (subst digits.simps) simp

lemma nat_of_digits_snoc: "nat_of_digits (ds @ [c]) = 10 * nat_of_digits ds + digit_val c"
  by (simp add: nat_of_digits_def)

lemma nat_of_digits_digits: "nat_of_digits (digits n) = n"
proof (induction n rule: digits.induct)
  case (1 n)
  show ?case
  proof (cases "n < 10")
    case True
    then show ?thesis
      by (simp add: digits.simps[of n] nat_of_digits_def digit_val_digit_char)
  next
    case False
    then have "nat_of_digits (digits n) = 10 * (n div 10) + n mod 10"
      using 1 by (simp add: digits.simps[of n] nat_of_digits_snoc digit_val_digit_char)
    then show ?thesis by simp
  qed
qed

lemma hd_digits_zero_iff: "hd (digits n) = CHR ''0'' \<longleftrightarrow> n = 0"
proof (induction n rule: digits.induct)
  case (1 n)
  show ?case
  proof (cases "n < 10")
    case True
    then show ?thesis by (simp add: digits.simps[of n] digit_char_zero_iff)
  next
    case False
    then have "hd (digits n) = hd (digits (n div 10))"
      by (simp add: digits.simps[of n] digits_nonempty)
    moreover have "n div 10 \<noteq> 0" using False by simp
    ultimately show ?thesis using 1 False by simp
  qed
qed

lemma digits_zero: "digits 0 = ''0''"
  by (simp add: digits.simps[of 0] digit_char_0)

definition value_end :: "string \<Rightarrow> bool" where
  "value_end rest \<longleftrightarrow> rest \<noteq> [] \<and> (hd rest = CHR '','' \<or> hd rest = CHR ''}'')"

lemma value_end_facts:
  assumes "value_end rest"
  shows "takeWhile is_digit rest = []" "dropWhile is_digit rest = rest"
        "\<not> (hd rest \<in> {CHR ''.'', CHR ''e'', CHR ''E''})" "rest \<noteq> []"
  using assms by (cases rest; auto simp: value_end_def is_digit_def)+

lemma scan_digits:
  assumes "value_end rest"
  shows "scan_int (digits n @ rest) = Some (int n, rest)"
    and "scan_int (CHR ''-'' # digits n @ rest) = Some (- int n, rest)"
proof -
  obtain d r where dr: "digits n = d # r" using digits_nonempty[of n] by (cases "digits n") auto
  have dig: "is_digit d" "\<forall>c \<in> set r. is_digit c" using digits_all_digit[of n] dr by auto
  have notminus: "d \<noteq> CHR ''-''" using dig(1) by (auto simp: is_digit_def)
  have tw: "takeWhile is_digit (r @ rest) = r" "dropWhile is_digit (r @ rest) = rest"
    using dig(2) value_end_facts(1,2)[OF assms]
    by simp_all
  have z: "d = CHR ''0'' \<Longrightarrow> n = 0 \<and> r = []"
    using hd_digits_zero_iff[of n] dr digits_zero by auto
  have nd: "nat_of_digits (d # r) = n" using nat_of_digits_digits[of n] dr by simp
  show "scan_int (digits n @ rest) = Some (int n, rest)"
    using dig(1) notminus tw z nd value_end_facts(3,4)[OF assms]
    by (auto simp: scan_int_def dr Let_def)
  show "scan_int (CHR ''-'' # digits n @ rest) = Some (- int n, rest)"
    using dig(1) tw z nd value_end_facts(3,4)[OF assms]
    by (auto simp: scan_int_def dr Let_def)
qed

lemma scan_int_str_int:
  assumes "value_end rest"
  shows "scan_int (str_int i @ rest) = Some (i, rest)"
proof (cases "i < 0")
  case True
  then show ?thesis using scan_digits(2)[OF assms, of "nat (- i)"] by (simp add: str_int_def)
next
  case False
  then show ?thesis using scan_digits(1)[OF assms, of "nat i"] by (simp add: str_int_def)
qed

lemma str_int_head:
  "\<exists>c cs. str_int i = c # cs \<and> (c = CHR ''-'' \<or> is_digit c)"
proof -
  obtain d r where dr: "digits (nat (if i < 0 then - i else i)) = d # r"
    using digits_nonempty by (metis list.exhaust)
  then have "is_digit d" using digits_all_digit[of "nat (if i < 0 then - i else i)"] by simp
  then show ?thesis using dr by (auto simp: str_int_def)
qed

lemma scan_value_encode:
  assumes "value_end rest"
  shows "scan_value (encode_value v @ rest) = Some (v, rest)"
proof (cases v)
  case JNull
  then show ?thesis by (simp add: scan_value_def)
next
  case (JBool b)
  then show ?thesis by (cases b) (simp_all add: scan_value_def)
next
  case (JInt i)
  obtain c cs where c: "str_int i = c # cs" "c = CHR ''-'' \<or> is_digit c"
    using str_int_head by blast
  have ne: "c \<noteq> CHR 0x22" "c \<noteq> CHR ''n''" "c \<noteq> CHR ''t''" "c \<noteq> CHR ''f''"
    using c(2) by (auto simp: is_digit_def)
  have "scan_value (c # cs @ rest) = map_option (\<lambda>(i, t). (JInt i, t)) (scan_int (c # cs @ rest))"
    using ne by (simp add: scan_value_def)
  then show ?thesis using scan_int_str_int[OF assms, of i] c(1) JInt by simp
next
  case (JStr s)
  then show ?thesis
    by (simp add: scan_value_def py_encode_basestring_def scanstring_encoded)
qed

lemma encode_value_not_ws: "skip_ws (encode_value v @ rest) = encode_value v @ rest"
proof (cases v)
  case (JInt i)
  obtain c cs where c: "str_int i = c # cs" "c = CHR ''-'' \<or> is_digit c"
    using str_int_head by blast
  then have "\<not> is_ws c" by (auto simp: is_ws_def is_digit_def)
  then show ?thesis using c JInt by (simp add: skip_ws_def)
next
  case (JBool b)
  then show ?thesis by (cases b) (simp_all add: skip_ws_def is_ws_def)
qed (simp_all add: skip_ws_def is_ws_def py_encode_basestring_def)


lemma skip_ws_simps:
  "skip_ws (CHR '' '' # cs) = skip_ws cs"
  "skip_ws (CHR '':'' # cs) = CHR '':'' # cs"
  "skip_ws (CHR '','' # cs) = CHR '','' # cs"
  "skip_ws (CHR ''}'' # cs) = CHR ''}'' # cs"
  "skip_ws (CHR ''{'' # cs) = CHR ''{'' # cs"
  "skip_ws (CHR 0x22 # cs) = CHR 0x22 # cs"
  "skip_ws [] = []"
  by (simp_all add: skip_ws_def is_ws_def)

lemma scan_members_item:
  assumes "value_end tail"
  shows "scan_members acc (encode_item (k, v) @ tail) =
           (if hd tail = CHR ''}'' then Some (dict_set acc k v, tl tail)
            else scan_members (dict_set acc k v) (skip_ws (tl tail)))"
proof -
  obtain e r4 where tail: "tail = e # r4" "e = CHR '','' \<or> e = CHR ''}''"
    using assms by (cases tail) (auto simp: value_end_def)
  let ?body = "concat (map py_encode_char k)"
  let ?after = "CHR '':'' # CHR '' '' # encode_value v @ tail"
  have shape: "encode_item (k, v) @ tail = CHR 0x22 # (?body @ CHR 0x22 # ?after)"
    by (simp add: encode_item_def py_encode_basestring_def)
  have key: "scanstring (?body @ CHR 0x22 # ?after) = Some (k, ?after)"
    by (rule scanstring_encoded)
  have val: "scan_value (skip_ws (CHR '' '' # encode_value v @ tail)) = Some (v, tail)"
    using scan_value_encode[OF assms, of v]
    by (simp add: skip_ws_simps(1) encode_value_not_ws)
  have sk: "skip_ws tail = e # r4" using tail by (auto simp: skip_ws_simps)
  have ne: "CHR '','' \<noteq> CHR ''}''" by simp
  show ?thesis
    apply (subst shape)
    apply (subst scan_members.simps)
    apply (simp only: list.case if_False not_not key option.case prod.case
                      skip_ws_simps(2) val sk refl if_True simp_thms)
    using tail by auto
qed

lemma join_items_Cons:
  "join_items (x # xs) = (if xs = [] then x else x @ '', '' @ join_items xs)"
  by (cases xs) simp_all

lemma encode_item_head: "\<exists>cs. encode_item kv = CHR 0x22 # cs"
  by (simp add: encode_item_def py_encode_basestring_def)

lemma join_items_head: "xs \<noteq> [] \<Longrightarrow> \<exists>cs. join_items (map encode_item xs) = CHR 0x22 # cs"
  by (cases xs) (auto simp: join_items_Cons encode_item_def py_encode_basestring_def)

definition dict_of_items :: "pydict \<Rightarrow> (string \<times> json) list \<Rightarrow> pydict" where
  "dict_of_items acc items = foldl (\<lambda>a kv. dict_set a (fst kv) (snd kv)) acc items"

lemma scan_members_items:
  "scan_members acc (join_items (map encode_item (p # ps)) @ CHR ''}'' # rest)
     = Some (dict_of_items acc (p # ps), rest)"
proof (induction ps arbitrary: p acc)
  case Nil
  have "value_end (CHR ''}'' # rest)" by (simp add: value_end_def)
  from scan_members_item[OF this, of acc "fst p" "snd p"]
  show ?case by (simp add: dict_of_items_def)
next
  case (Cons q qs)
  let ?next = "join_items (map encode_item (q # qs)) @ CHR ''}'' # rest"
  let ?tail = "CHR '','' # CHR '' '' # ?next"
  have ve: "value_end ?tail" by (simp add: value_end_def)
  obtain cs where cs: "join_items (map encode_item (q # qs)) = CHR 0x22 # cs"
    using join_items_head[of "q # qs"] by auto
  have "skip_ws ?next = ?next"
    unfolding cs by (simp add: skip_ws_simps(6))
  then have sk: "skip_ws (CHR '' '' # ?next) = ?next"
    by (simp only: skip_ws_simps(1))
  have "join_items (map encode_item (p # q # qs)) @ CHR ''}'' # rest
          = encode_item (fst p, snd p) @ ?tail"
    by simp
  then have "scan_members acc (join_items (map encode_item (p # q # qs)) @ CHR ''}'' # rest)
          = scan_members (dict_set acc (fst p) (snd p)) ?next"
    using scan_members_item[OF ve, of acc "fst p" "snd p"] sk by simp
  also have "\<dots> = Some (dict_of_items (dict_set acc (fst p) (snd p)) (q # qs), rest)"
    by (rule Cons.IH)
  finally show ?case by (simp add: dict_of_items_def)
qed

lemma dict_set_fresh: "k \<notin> fst ` set d \<Longrightarrow> dict_set d k v = d @ [(k, v)]"
  by (induction d) auto

lemma dict_of_items_distinct:
  "distinct (map fst (acc @ items)) \<Longrightarrow> dict_of_items acc items = acc @ items"
proof (induction items arbitrary: acc)
  case Nil
  show ?case by (simp add: dict_of_items_def)
next
  case (Cons p ps)
  have fresh: "fst p \<notin> fst ` set acc" using Cons.prems by auto
  have "dict_of_items acc (p # ps) = dict_of_items (acc @ [p]) ps"
    using dict_set_fresh[OF fresh, of "snd p"] by (simp add: dict_of_items_def)
  also have "\<dots> = (acc @ [p]) @ ps" using Cons.prems by (intro Cons.IH) simp
  finally show ?case by simp
qed

lemma json_loads_dumps_items:
  "json_loads (json_dumps d) = Inr (dict_of_items [] d)"
proof (cases d)
  case Nil
  then show ?thesis
    by (simp add: json_loads_def json_dumps_def skip_ws_simps dict_of_items_def)
next
  case (Cons p ps)
  obtain cs where cs: "join_items (map encode_item (p # ps)) = CHR 0x22 # cs"
    using join_items_head[of "p # ps"] by auto
  have m: "scan_members [] (CHR 0x22 # cs @ ''}'') = Some (dict_of_items [] (p # ps), [])"
    using scan_members_items[of "[]" p ps "[]"] unfolding cs by simp
  have "json_dumps d = CHR ''{'' # join_items (map encode_item (p # ps)) @ ''}''"
    using Cons by (simp add: json_dumps_def)
  then have "json_dumps d = CHR ''{'' # CHR 0x22 # cs @ ''}''"
    unfolding cs by simp
  then show ?thesis
    using m Cons by (simp add: json_loads_def skip_ws_simps)
qed

lemma json_loads_dumps:
  "distinct (map fst d) \<Longrightarrow> json_loads (json_dumps d) = Inr d"
  using dict_of_items_distinct[of "[]" d] by (simp add: json_loads_dumps_items)

lemma json_dumps_nonempty: "json_dumps d \<noteq> []"
  by (simp add: json_dumps_def)


section \<open>The shared directory as the job observes it\<close>

text \<open>
  The operating-system calls of jobs.py, as observations of one snapshot of the file
  system: \<open>os.path.isfile\<close>, \<open>os.path.getsize\<close>, \<open>os.path.getmtime\<close>, \<open>glob.glob\<close> and
  whether \<open>os.makedirs(p, exist_ok=True)\<close> succeeds. Modification times are floats in
  Python; only their order is used, so they are values of any linear order.
\<close>

record 't fsys =
  isfile :: "string \<Rightarrow> bool"
  getsize :: "string \<Rightarrow> nat"
  getmtime :: "string \<Rightarrow> 't"
  glob :: "string \<Rightarrow> string list"
  makedirs_ok :: "string \<Rightarrow> bool"

definition sort_reverse :: "('a \<Rightarrow> 't::linorder) \<Rightarrow> 'a list \<Rightarrow> 'a list" where
  \<comment> \<open>\<open>list.sort(key=k, reverse=True)\<close>: descending and stable, elements with equal
      keys keep their original order (the list is reversed, sorted stably, reversed)\<close>
  "sort_reverse k xs = rev (sort_key k (rev xs))"

definition pick_newest_nonempty :: "('t::linorder) fsys \<Rightarrow> string list \<Rightarrow> string option" where
  \<comment> \<open>jobs.py \<open>_pick_newest_nonempty\<close>\<close>
  "pick_newest_nonempty fs paths =
     (let candidates = filter (\<lambda>p. isfile fs p \<and> getsize fs p > 0) paths in
      if candidates = [] then None
      else Some (hd (sort_reverse (getmtime fs) candidates)))"


section \<open>The Output Resolver\<close>

lemma sort_reverse_set: "set (sort_reverse k xs) = set xs"
  by (simp add: sort_reverse_def)

lemma sort_reverse_Nil_iff: "sort_reverse k xs = [] \<longleftrightarrow> xs = []"
  by (metis sort_reverse_set set_empty)

lemma sort_reverse_hd_max:
  assumes "xs \<noteq> []" and "y \<in> set xs"
  shows "k y \<le> k (hd (sort_reverse k xs))"
proof -
  let ?s = "sort_key k (rev xs)"
  have ne: "?s \<noteq> []" using assms(1) by (metis set_sort set_rev set_empty)
  have srt: "sorted (map k ?s)" by (rule sorted_sort_key)
  have hd_last: "hd (sort_reverse k xs) = last ?s"
    using ne by (simp add: sort_reverse_def hd_rev)
  have "y \<in> set ?s" using assms(2) by simp
  then obtain i where i: "i < length ?s" "?s ! i = y"
    unfolding in_set_conv_nth by blast
  have "map k ?s ! i \<le> map k ?s ! (length ?s - 1)"
    using srt i(1) by (intro sorted_nth_mono) auto
  then have "k y \<le> k (last ?s)"
    using i ne by (simp add: last_conv_nth)
  then show ?thesis by (simp add: hd_last)
qed

lemma pick_newest_nonempty_None_iff:
  "pick_newest_nonempty fs paths = None \<longleftrightarrow>
     (\<forall>p \<in> set paths. \<not> isfile fs p \<or> getsize fs p = 0)"
  by (auto simp: pick_newest_nonempty_def Let_def filter_empty_conv)

lemma pick_newest_nonempty_Some:
  assumes "pick_newest_nonempty fs paths = Some p"
  shows "p \<in> set paths \<and> isfile fs p \<and> getsize fs p > 0 \<and>
         (\<forall>q \<in> set paths. isfile fs q \<and> getsize fs q > 0 \<longrightarrow> getmtime fs q \<le> getmtime fs p)"
proof -
  let ?c = "filter (\<lambda>p. isfile fs p \<and> getsize fs p > 0) paths"
  from assms have ne: "?c \<noteq> []" and p: "p = hd (sort_reverse (getmtime fs) ?c)"
    by (auto simp: pick_newest_nonempty_def Let_def split: if_splits)
  have "sort_reverse (getmtime fs) ?c \<noteq> []" using ne by (simp add: sort_reverse_Nil_iff)
  then have "p \<in> set (sort_reverse (getmtime fs) ?c)" using p by simp
  then have mem: "p \<in> set ?c" by (simp only: sort_reverse_set)
  have "getmtime fs q \<le> getmtime fs p" if "q \<in> set ?c" for q
    using sort_reverse_hd_max[OF ne that, of "getmtime fs"] p by simp
  with mem show ?thesis by auto
qed


definition fs_example :: "nat fsys" where
  \<comment> \<open>a directory holding an older, larger file A, a newer file B and a zero-byte file Z\<close>
  "fs_example =
     \<lparr> isfile = (\<lambda>p. p \<in> {''A'', ''B'', ''Z''}),
       getsize = (\<lambda>p. if p = ''A'' then 900 else if p = ''B'' then 5 else 0),
       getmtime = (\<lambda>p. if p = ''A'' then 100 else if p = ''B'' then 200 else 300),
       glob = (\<lambda>_. []),
       makedirs_ok = (\<lambda>_. True) \<rparr>"

text \<open>
  C2. For every list of candidate paths, \<open>_pick_newest_nonempty\<close> returns nothing
  exactly when every candidate is missing (\<open>os.path.isfile\<close> is false) or zero-byte, in
  particular for the empty list; otherwise it returns a candidate of the list that exists,
  is non-empty and whose modification time is at least that of every other existing
  non-empty candidate. Over an older, larger file A and a newer, non-empty file B it
  returns B, in either order of the list.
\<close>

theorem pick_newest_nonempty_resolves:
  fixes fs :: "('t::linorder) fsys"
  shows "pick_newest_nonempty fs [] = None
       \<and> ((\<forall>p \<in> set paths. \<not> isfile fs p \<or> getsize fs p = 0)
            \<longrightarrow> pick_newest_nonempty fs paths = None)
       \<and> (\<not> (\<forall>p \<in> set paths. \<not> isfile fs p \<or> getsize fs p = 0)
            \<longrightarrow> (\<exists>p. pick_newest_nonempty fs paths = Some p \<and> p \<in> set paths
                     \<and> isfile fs p \<and> getsize fs p > 0
                     \<and> (\<forall>q \<in> set paths. isfile fs q \<and> getsize fs q > 0
                            \<longrightarrow> getmtime fs q \<le> getmtime fs p)))
       \<and> (isfile fs a \<and> isfile fs b \<and> getsize fs b > 0 \<and> getsize fs b < getsize fs a
            \<and> getmtime fs a < getmtime fs b
            \<longrightarrow> pick_newest_nonempty fs [a, b] = Some b
              \<and> pick_newest_nonempty fs [b, a] = Some b)"
proof (intro conjI impI)
  show "pick_newest_nonempty fs [] = None"
    by (simp add: pick_newest_nonempty_def)
next
  assume "\<forall>p \<in> set paths. \<not> isfile fs p \<or> getsize fs p = 0"
  then show "pick_newest_nonempty fs paths = None"
    by (simp only: pick_newest_nonempty_None_iff)
next
  assume "\<not> (\<forall>p \<in> set paths. \<not> isfile fs p \<or> getsize fs p = 0)"
  then have "pick_newest_nonempty fs paths \<noteq> None"
    by (simp only: pick_newest_nonempty_None_iff not_False_eq_True)
  then obtain p where p: "pick_newest_nonempty fs paths = Some p" by blast
  from pick_newest_nonempty_Some[OF p] p
  show "\<exists>p. pick_newest_nonempty fs paths = Some p \<and> p \<in> set paths
          \<and> isfile fs p \<and> getsize fs p > 0
          \<and> (\<forall>q \<in> set paths. isfile fs q \<and> getsize fs q > 0
                 \<longrightarrow> getmtime fs q \<le> getmtime fs p)"
    by blast
next
  assume h: "isfile fs a \<and> isfile fs b \<and> getsize fs b > 0 \<and> getsize fs b < getsize fs a
             \<and> getmtime fs a < getmtime fs b"
  then show "pick_newest_nonempty fs [a, b] = Some b"
    by (auto simp: pick_newest_nonempty_def sort_reverse_def)
  from h show "pick_newest_nonempty fs [b, a] = Some b"
    by (auto simp: pick_newest_nonempty_def sort_reverse_def)
qed

theorem pick_newest_nonempty_resolves_witness:
  "pick_newest_nonempty fs_example [] = None
   \<and> pick_newest_nonempty fs_example [''Z'', ''missing''] = None
   \<and> pick_newest_nonempty fs_example [''A'', ''B''] = Some ''B''
   \<and> pick_newest_nonempty fs_example [''B'', ''A''] = Some ''B''
   \<and> pick_newest_nonempty fs_example [''Z'', ''A'', ''missing'', ''B''] = Some ''B''"
proof -
  have ex: "isfile fs_example ''A'' \<and> isfile fs_example ''B'' \<and> getsize fs_example ''B'' > 0
            \<and> getsize fs_example ''B'' < getsize fs_example ''A''
            \<and> getmtime fs_example ''A'' < getmtime fs_example ''B''"
    by (simp add: fs_example_def)
  have none: "\<forall>p \<in> set [''Z'', ''missing'']. \<not> isfile fs_example p \<or> getsize fs_example p = 0"
    by (simp add: fs_example_def)
  have last: "pick_newest_nonempty fs_example [''Z'', ''A'', ''missing'', ''B''] = Some ''B''"
    by (simp add: pick_newest_nonempty_def fs_example_def sort_reverse_def)
  from pick_newest_nonempty_resolves[of fs_example "[''Z'', ''missing'']" "''A''" "''B''"]
    ex none last
  show ?thesis by blast
qed


section \<open>The key-value store, the job queue and the clock\<close>

text \<open>
  The Redis server is a map from keys to a value and an optional expiry instant; a key
  whose expiry has passed is absent for every command. The clock counts milliseconds.
  Each Redis command and each \<open>enqueue\<close> is one atomic step on this state; the commands
  issued are also appended to a trace, so that a theorem can speak of which commands a
  function issued and with which arguments. The jobs RQ keeps in Redis under its own
  \<open>rq:\<close> keys are the component \<open>queue\<close>. Failures of the connection are not modelled.
\<close>

type_synonym kvstore = "bytes \<rightharpoonup> bytes \<times> nat option"

datatype job = Job string string nat
  \<comment> \<open>job id, the argument \<open>video_id\<close> of \<open>download_av_job\<close>, \<open>job_timeout\<close> in seconds\<close>

datatype event =
    RedisGet bytes
  | RedisSetNX bytes bytes nat bool   \<comment> \<open>key, value, \<open>ex\<close> seconds, whether the key was set\<close>
  | RedisSet bytes bytes "nat option" \<comment> \<open>key, value, \<open>ex\<close> seconds if given\<close>
  | RedisDelete bytes
  | Enqueue string string nat         \<comment> \<open>job id, video id, \<open>job_timeout\<close> seconds\<close>
  | Subprocess "string list" nat      \<comment> \<open>argument vector, \<open>timeout_seconds\<close>\<close>

record 't world =
  now :: nat
  kv :: kvstore
  queue :: "job list"
  issued :: nat
  fs :: "'t fsys"
  trace :: "event list"

text \<open>
  What the code takes from its surroundings: the environment variable \<open>MEDIA_ROOT\<close>, the
  ids the queue gives to the jobs it creates (\<open>uuid n\<close> for the \<open>n\<close>-th job), the id of the
  job a worker is running (\<open>get_current_job()\<close>), and the behaviour of
  \<open>subprocess.run(args, capture_output=True, text=True, timeout=t)\<close>: from the argument
  vector, the timeout and the file system it gives the outcome (the exception raised, or
  return code, stdout and stderr), the time the call took in milliseconds and the file
  system it leaves.
\<close>

record 't env =
  MEDIA_ROOT :: string
  uuid :: "nat \<Rightarrow> string"
  current_job :: "string option"
  subprocess_run ::
    "string list \<Rightarrow> nat \<Rightarrow> 't fsys \<Rightarrow> (py_error + int \<times> string \<times> string) \<times> nat \<times> 't fsys"

definition live :: "nat \<Rightarrow> bytes \<times> nat option \<Rightarrow> bool" where
  \<comment> \<open>Redis drops a key once the clock is past its expiry instant: at the instant itself
      the key is still held\<close>
  "live t e = (case snd e of None \<Rightarrow> True | Some x \<Rightarrow> t \<le> x)"

definition lookup :: "'t world \<Rightarrow> bytes \<Rightarrow> bytes option" where
  \<comment> \<open>the value a key holds at the current instant\<close>
  "lookup w k = (case kv w k of
                   None \<Rightarrow> None
                 | Some e \<Rightarrow> if live (now w) e then Some (fst e) else None)"

definition redis_get :: "bytes \<Rightarrow> 't world \<Rightarrow> bytes option \<times> 't world" where
  \<comment> \<open>\<open>r.get(k)\<close>\<close>
  "redis_get k w = (lookup w k, w\<lparr>trace := trace w @ [RedisGet k]\<rparr>)"

definition redis_set :: "bytes \<Rightarrow> bytes \<Rightarrow> nat option \<Rightarrow> 't world \<Rightarrow> 't world" where
  \<comment> \<open>\<open>r.set(k, v)\<close> and \<open>r.set(k, v, ex=s)\<close>: a plain SET drops any expiry\<close>
  "redis_set k v ex w =
     w\<lparr>kv := (kv w)(k \<mapsto> (v, map_option (\<lambda>s. now w + s * 1000) ex)),
       trace := trace w @ [RedisSet k v ex]\<rparr>"

definition redis_set_nx :: "bytes \<Rightarrow> bytes \<Rightarrow> nat \<Rightarrow> 't world \<Rightarrow> bool \<times> 't world" where
  \<comment> \<open>\<open>r.set(k, v, nx=True, ex=s)\<close>: sets the key only if it is absent; true iff it was set\<close>
  "redis_set_nx k v s w =
     (if lookup w k = None
      then (True, w\<lparr>kv := (kv w)(k \<mapsto> (v, Some (now w + s * 1000))),
                    trace := trace w @ [RedisSetNX k v s True]\<rparr>)
      else (False, w\<lparr>trace := trace w @ [RedisSetNX k v s False]\<rparr>))"

definition redis_delete :: "bytes \<Rightarrow> 't world \<Rightarrow> 't world" where
  \<comment> \<open>\<open>r.delete(k)\<close>: removes the key; deleting an absent key is not an error\<close>
  "redis_delete k w = w\<lparr>kv := (kv w)(k := None), trace := trace w @ [RedisDelete k]\<rparr>"

definition enqueue :: "'t env \<Rightarrow> string \<Rightarrow> nat \<Rightarrow> 't world \<Rightarrow> string \<times> 't world" where
  \<comment> \<open>\<open>q.enqueue(download_av_job, video_id, job_timeout=t)\<close>; the result is \<open>job.id\<close>\<close>
  "enqueue env video_id t w =
     (let jid = uuid env (issued w)
      in (jid, w\<lparr>queue := queue w @ [Job jid video_id t],
                 issued := Suc (issued w),
                 trace := trace w @ [Enqueue jid video_id t]\<rparr>))"


section \<open>The Metadata Store and the lock release (app/jobs.py)\<close>

definition store_media :: "string \<Rightarrow> pydict \<Rightarrow> 't world \<Rightarrow> 't world" where
  "store_media video_id payload w =
     redis_set (py_b (k_media video_id)) (py_b (json_dumps payload)) None w"

definition get_media :: "string \<Rightarrow> 't world \<Rightarrow> (py_error + pydict option) \<times> 't world" where
  \<comment> \<open>\<open>if not raw: return None\<close> covers the missing key and the empty value\<close>
  "get_media video_id w =
     (case redis_get (py_b (k_media video_id)) w of
        (raw, w') \<Rightarrow>
          (case raw of
             None \<Rightarrow> (Inr None, w')
           | Some r \<Rightarrow>
               if r = [] then (Inr None, w')
               else (case json_loads r of
                       Inl e \<Rightarrow> (Inl e, w')
                     | Inr d \<Rightarrow> (Inr (Some d), w'))))"

definition release_lock :: "string \<Rightarrow> 't world \<Rightarrow> 't world" where
  "release_lock video_id w = redis_delete (py_b (k_lock video_id)) w"


definition media_payload :: "string \<Rightarrow> string \<Rightarrow> string \<Rightarrow> string \<Rightarrow> int \<Rightarrow> pydict" where
  \<comment> \<open>the dict \<open>payload\<close> that \<open>download_av_job\<close> builds and stores\<close>
  "media_payload video_id watch_url video_path audio_path updated_at =
     [(''video_id'', JStr video_id),
      (''watch_url'', JStr watch_url),
      (''video_path'', JStr video_path),
      (''audio_path'', JStr audio_path),
      (''updated_at'', JInt updated_at)]"

definition world0 :: "nat world" where
  \<comment> \<open>an empty store and queue at instant 0, over the example directory\<close>
  "world0 = \<lparr> now = 0, kv = Map.empty, queue = [], issued = 0, fs = fs_example, trace = [] \<rparr>"

lemma lookup_redis_set:
  "lookup (redis_set k v None w) k' = (if k' = k then Some v else lookup w k')"
  by (auto simp: lookup_def redis_set_def live_def split: option.splits)

lemma get_media_store_media:
  assumes "json_loads (json_dumps payload) = Inr payload"
  shows "fst (get_media video_id (store_media video_id payload w)) = Inr (Some payload)"
  using assms json_dumps_nonempty[of payload]
  by (simp add: get_media_def store_media_def redis_get_def lookup_redis_set py_b_def)

text \<open>
  C7. For every identifier and every metadata record, \<open>store_media\<close> followed by
  \<open>get_media\<close> returns a record equal to the original in all fields: for every dict
  with (as in any Python dict) pairwise distinct keys whose values are strings,
  integers, booleans or null, and in particular for the record of string paths, URL
  string and integer timestamp that \<open>download_av_job\<close> stores.
\<close>

theorem store_media_get_media_roundtrip:
  "(distinct (map fst payload) \<longrightarrow>
      fst (get_media video_id (store_media video_id payload w)) = Inr (Some payload))
   \<and> fst (get_media video_id
            (store_media video_id (media_payload video_id url vpath apath ts) w))
       = Inr (Some (media_payload video_id url vpath apath ts))"
proof (intro conjI impI)
  assume "distinct (map fst payload)"
  then have "json_loads (json_dumps payload) = Inr payload" by (rule json_loads_dumps)
  then show "fst (get_media video_id (store_media video_id payload w)) = Inr (Some payload)"
    by (rule get_media_store_media)
next
  have "distinct (map fst (media_payload video_id url vpath apath ts))"
    by (simp add: media_payload_def)
  then have "json_loads (json_dumps (media_payload video_id url vpath apath ts))
             = Inr (media_payload video_id url vpath apath ts)"
    by (rule json_loads_dumps)
  then show "fst (get_media video_id
                    (store_media video_id (media_payload video_id url vpath apath ts) w))
             = Inr (Some (media_payload video_id url vpath apath ts))"
    by (rule get_media_store_media)
qed

theorem store_media_get_media_roundtrip_witness:
  "distinct (map fst [(''video_path'', JStr ''/data/abc12345678.video.mp4''),
                      (''n'', JInt (- 42)), (''flag'', JBool True), (''none'', JNull)])
   \<and> fst (get_media ''abc12345678''
            (store_media ''abc12345678''
               [(''video_path'', JStr ''/data/abc12345678.video.mp4''),
                (''n'', JInt (- 42)), (''flag'', JBool True), (''none'', JNull)] world0))
       = Inr (Some [(''video_path'', JStr ''/data/abc12345678.video.mp4''),
                    (''n'', JInt (- 42)), (''flag'', JBool True), (''none'', JNull)])"
proof -
  have d: "distinct (map fst [(''video_path'', JStr ''/data/abc12345678.video.mp4''),
                              (''n'', JInt (- 42)), (''flag'', JBool True), (''none'', JNull)])"
    by simp
  from d store_media_get_media_roundtrip[of
      "[(''video_path'', JStr ''/data/abc12345678.video.mp4''),
        (''n'', JInt (- 42)), (''flag'', JBool True), (''none'', JNull)]"
      "''abc12345678''" world0]
  show ?thesis by blast
qed

text \<open>
  C10. For every identifier, the key that \<open>ensure_cache_request\<close> sets (the literal
  \<open>"yt:lock:" + video_id\<close>, encoded) is the key that \<open>release_lock\<close> deletes (built with
  \<open>k_lock\<close>): \<open>release_lock\<close> is the deletion of that key, and after it the key is absent,
  whatever held it.
\<close>

theorem lock_key_is_released_key:
  "lock_key video_id = py_b (k_lock video_id)
   \<and> release_lock video_id w = redis_delete (lock_key video_id) w
   \<and> lookup (release_lock video_id w) (lock_key video_id) = None
   \<and> lookup (release_lock video_id (snd (redis_set_nx (lock_key video_id) ''1'' 600 w)))
        (lock_key video_id) = None"
  by (simp add: lock_key_def py_b_def k_lock_def release_lock_def redis_delete_def lookup_def)

section \<open>The Dedup Coordinator (app/main.py)\<close>

definition py_get_truthy :: "pydict \<Rightarrow> string \<Rightarrow> bool" where
  \<comment> \<open>the truth value of \<open>d.get(k)\<close>: a missing key gives \<open>None\<close>, which is false\<close>
  "py_get_truthy d k = (case dict_get d k of None \<Rightarrow> False | Some v \<Rightarrow> truthy v)"

definition media_ready :: "pydict option \<Rightarrow> bool" where
  \<comment> \<open>\<open>media and media.get("video_path") and media.get("audio_path")\<close>\<close>
  "media_ready media =
     (case media of
        None \<Rightarrow> False
      | Some d \<Rightarrow> d \<noteq> [] \<and> py_get_truthy d ''video_path'' \<and> py_get_truthy d ''audio_path'')"

definition ensure_cache_request ::
  "'t env \<Rightarrow> string \<Rightarrow> 't world \<Rightarrow> (py_error + string) \<times> 't world" where
  "ensure_cache_request env video_id w =
     (case get_media video_id w of
        (Inl e, w1) \<Rightarrow> (Inl e, w1)
      | (Inr media, w1) \<Rightarrow>
          if media_ready media then (Inr '''', w1)
          else
            (case redis_set_nx (lock_key video_id) ''1'' 600 w1 of
               (got_lock, w2) \<Rightarrow>
                 if \<not> got_lock then (Inr '''', w2)
                 else
                   (case enqueue env video_id 3600 w2 of
                      (jid, w3) \<Rightarrow>
                        (Inr jid,
                         redis_set (last_job_key video_id) (py_b jid) (Some 3600) w3))))"

definition advance :: "nat \<Rightarrow> 't world \<Rightarrow> 't world" where
  \<comment> \<open>the passing of \<open>d\<close> milliseconds\<close>
  "advance d w = w\<lparr>now := now w + d\<rparr>"

definition lock_ttls :: "event list \<Rightarrow> nat list" where
  \<comment> \<open>the \<open>ex\<close> arguments of the conditional sets of a trace, in seconds\<close>
  "lock_ttls tr = concat (map (\<lambda>e. case e of RedisSetNX k v s b \<Rightarrow> [s] | _ \<Rightarrow> []) tr)"

definition job_timeouts :: "event list \<Rightarrow> nat list" where
  \<comment> \<open>the \<open>job_timeout\<close> arguments of the enqueues of a trace, in seconds\<close>
  "job_timeouts tr = concat (map (\<lambda>e. case e of Enqueue j v t \<Rightarrow> [t] | _ \<Rightarrow> []) tr)"

definition subprocess_timeouts :: "event list \<Rightarrow> nat list" where
  \<comment> \<open>the \<open>timeout_seconds\<close> arguments of the tool invocations of a trace\<close>
  "subprocess_timeouts tr = concat (map (\<lambda>e. case e of Subprocess a t \<Rightarrow> [t] | _ \<Rightarrow> []) tr)"

lemma get_media_snd:
  "snd (get_media video_id w) = w\<lparr>trace := trace w @ [RedisGet (py_b (k_media video_id))]\<rparr>"
  by (simp add: get_media_def redis_get_def split: option.splits sum.splits)

lemma lookup_trace_update [simp]: "lookup (w\<lparr>trace := t\<rparr>) k = lookup w k"
  by (simp add: lookup_def split: option.splits)

lemma ensure_cache_request_ready:
  assumes "fst (get_media video_id w) = Inr media" and "media_ready media"
  shows "ensure_cache_request env video_id w
         = (Inr '''', w\<lparr>trace := trace w @ [RedisGet (py_b (k_media video_id))]\<rparr>)"
proof -
  have "get_media video_id w
        = (Inr media, w\<lparr>trace := trace w @ [RedisGet (py_b (k_media video_id))]\<rparr>)"
    using assms(1) get_media_snd[of video_id w] by (metis prod.collapse)
  then show ?thesis using assms(2) by (simp add: ensure_cache_request_def)
qed

lemma get_media_trace_irrelevant:
  "fst (get_media video_id (w\<lparr>trace := t\<rparr>)) = fst (get_media video_id w)"
  by (simp add: get_media_def redis_get_def split: option.splits sum.splits)

text \<open>
  C6. For every identifier whose metadata record is present with both \<open>video_path\<close> and
  \<open>audio_path\<close> populated, \<open>ensure_cache_request\<close> returns the empty handle; the only
  command it issues is the read of the metadata key (no conditional set, no enqueue, no
  write), so the store, the queue and the clock are unchanged, and a repeated call does
  the same again.
\<close>

theorem ensure_cache_request_ready_is_read_only:
  assumes "fst (get_media video_id w) = Inr media" and "media_ready media"
  shows "fst (ensure_cache_request env video_id w) = Inr ''''
       \<and> trace (snd (ensure_cache_request env video_id w))
           = trace w @ [RedisGet (py_b (k_media video_id))]
       \<and> kv (snd (ensure_cache_request env video_id w)) = kv w
       \<and> queue (snd (ensure_cache_request env video_id w)) = queue w
       \<and> issued (snd (ensure_cache_request env video_id w)) = issued w
       \<and> now (snd (ensure_cache_request env video_id w)) = now w
       \<and> fst (ensure_cache_request env video_id (snd (ensure_cache_request env video_id w)))
           = Inr ''''
       \<and> kv (snd (ensure_cache_request env video_id (snd (ensure_cache_request env video_id w))))
           = kv w
       \<and> queue (snd (ensure_cache_request env video_id (snd (ensure_cache_request env video_id w))))
           = queue w"
proof -
  let ?w1 = "w\<lparr>trace := trace w @ [RedisGet (py_b (k_media video_id))]\<rparr>"
  have first: "ensure_cache_request env video_id w = (Inr '''', ?w1)"
    using assms by (rule ensure_cache_request_ready)
  have "fst (get_media video_id ?w1) = Inr media"
    using assms(1) by (simp only: get_media_trace_irrelevant)
  then have second: "ensure_cache_request env video_id ?w1
      = (Inr '''', ?w1\<lparr>trace := trace ?w1 @ [RedisGet (py_b (k_media video_id))]\<rparr>)"
    using assms(2) by (rule ensure_cache_request_ready)
  show ?thesis by (simp add: first second)
qed

definition example_uuid :: "nat \<Rightarrow> string" where
  "example_uuid n = ''job-'' @ str_int (int n)"

definition example_tool ::
  "string list \<Rightarrow> nat \<Rightarrow> nat fsys \<Rightarrow> (py_error + int \<times> string \<times> string) \<times> nat \<times> nat fsys" where
  \<comment> \<open>a tool that exits with status 1 after 700 seconds and prints a diagnostic\<close>
  "example_tool args t f = (Inr (1, '''', '' ERROR: unavailable '' @ [CHR 0x0A]), 700000, f)"

definition env0 :: "nat env" where
  "env0 = \<lparr> MEDIA_ROOT = ''/data'', uuid = example_uuid, current_job = Some ''job-0'',
            subprocess_run = example_tool \<rparr>"

definition example_record :: pydict where
  "example_record = media_payload ''abc12345678'' ''https://www.youtube.com/watch?v=abc12345678''
      ''/data/abc12345678.video.mp4'' ''/data/abc12345678.audio.m4a'' 1700000000"

definition world_ready :: "nat world" where
  \<comment> \<open>the store after a job has published the record of \<open>abc12345678\<close>\<close>
  "world_ready = store_media ''abc12345678'' example_record world0"

lemma example_record_distinct: "distinct (map fst example_record)"
  by (simp add: example_record_def media_payload_def)

lemma world_ready_get_media:
  "fst (get_media ''abc12345678'' world_ready) = Inr (Some example_record)"
  unfolding world_ready_def
  by (rule get_media_store_media) (rule json_loads_dumps[OF example_record_distinct])

lemma example_record_ready: "media_ready (Some example_record)"
  by (simp add: media_ready_def py_get_truthy_def dict_get_def example_record_def
                media_payload_def)

theorem ensure_cache_request_ready_is_read_only_witness:
  "fst (get_media ''abc12345678'' world_ready) = Inr (Some example_record)
   \<and> media_ready (Some example_record)
   \<and> fst (ensure_cache_request env0 ''abc12345678'' world_ready) = Inr ''''
   \<and> trace (snd (ensure_cache_request env0 ''abc12345678'' world_ready))
       = trace world_ready @ [RedisGet (py_b (k_media ''abc12345678''))]
   \<and> kv (snd (ensure_cache_request env0 ''abc12345678'' world_ready)) = kv world_ready
   \<and> queue (snd (ensure_cache_request env0 ''abc12345678'' world_ready)) = []"
proof -
  have q: "queue world_ready = []"
    by (simp add: world_ready_def store_media_def redis_set_def world0_def)
  from ensure_cache_request_ready_is_read_only[OF world_ready_get_media example_record_ready,
        of env0]
    world_ready_get_media example_record_ready q
  show ?thesis by simp
qed

lemma ensure_cache_request_acquires:
  assumes "fst (get_media video_id w) = Inr media" and "\<not> media_ready media"
      and "lookup w (lock_key video_id) = None"
  shows "ensure_cache_request env video_id w =
           (Inr (uuid env (issued w)),
            w\<lparr>kv := (kv w)(lock_key video_id \<mapsto> (''1'', Some (now w + 600 * 1000)),
                           last_job_key video_id \<mapsto>
                             (py_b (uuid env (issued w)), Some (now w + 3600 * 1000))),
              queue := queue w @ [Job (uuid env (issued w)) video_id 3600],
              issued := Suc (issued w),
              trace := trace w @
                [RedisGet (py_b (k_media video_id)),
                 RedisSetNX (lock_key video_id) ''1'' 600 True,
                 Enqueue (uuid env (issued w)) video_id 3600,
                 RedisSet (last_job_key video_id) (py_b (uuid env (issued w))) (Some 3600)]\<rparr>)"
proof -
  have g: "get_media video_id w
        = (Inr media, w\<lparr>trace := trace w @ [RedisGet (py_b (k_media video_id))]\<rparr>)"
    using assms(1) get_media_snd[of video_id w] by (metis prod.collapse)
  show ?thesis
    using assms(2,3)
    by (simp add: ensure_cache_request_def g redis_set_nx_def enqueue_def redis_set_def Let_def)
qed

lemma ensure_cache_request_pending:
  assumes "fst (get_media video_id w) = Inr media" and "\<not> media_ready media"
      and "lookup w (lock_key video_id) \<noteq> None"
  shows "ensure_cache_request env video_id w =
           (Inr '''',
            w\<lparr>trace := trace w @
                [RedisGet (py_b (k_media video_id)),
                 RedisSetNX (lock_key video_id) ''1'' 600 False]\<rparr>)"
proof -
  have g: "get_media video_id w
        = (Inr media, w\<lparr>trace := trace w @ [RedisGet (py_b (k_media video_id))]\<rparr>)"
    using assms(1) get_media_snd[of video_id w] by (metis prod.collapse)
  show ?thesis
    using assms(2,3)
    by (auto simp: ensure_cache_request_def g redis_set_nx_def)
qed

lemma ensure_cache_request_raises:
  assumes "fst (get_media video_id w) = Inl e"
  shows "ensure_cache_request env video_id w =
           (Inl e, w\<lparr>trace := trace w @ [RedisGet (py_b (k_media video_id))]\<rparr>)"
proof -
  have g: "get_media video_id w
        = (Inl e, w\<lparr>trace := trace w @ [RedisGet (py_b (k_media video_id))]\<rparr>)"
    using assms(1) get_media_snd[of video_id w] by (metis prod.collapse)
  show ?thesis by (simp add: ensure_cache_request_def g)
qed

lemma world0_get_media: "fst (get_media video_id world0) = Inr None"
  by (simp add: get_media_def redis_get_def lookup_def world0_def)

lemma world0_lookup: "lookup world0 k = None"
  by (simp add: lookup_def world0_def)

lemma not_ready_None: "\<not> media_ready None"
  by (simp add: media_ready_def)

definition new_events :: "'t world \<Rightarrow> 't world \<Rightarrow> event list" where
  \<comment> \<open>the commands issued between an earlier state \<open>w\<close> and a later state \<open>w'\<close>\<close>
  "new_events w w' = drop (length (trace w)) (trace w')"

lemma ensure_cache_request_new_events:
  "new_events w (snd (ensure_cache_request env video_id w)) \<in>
     {[RedisGet (py_b (k_media video_id))],
      [RedisGet (py_b (k_media video_id)), RedisSetNX (lock_key video_id) ''1'' 600 False],
      [RedisGet (py_b (k_media video_id)), RedisSetNX (lock_key video_id) ''1'' 600 True,
       Enqueue (uuid env (issued w)) video_id 3600,
       RedisSet (last_job_key video_id) (py_b (uuid env (issued w))) (Some 3600)]}"
proof (cases "fst (get_media video_id w)")
  case (Inl e)
  then show ?thesis by (simp add: ensure_cache_request_raises new_events_def)
next
  case (Inr media)
  show ?thesis
  proof (cases "media_ready media")
    case True
    with Inr show ?thesis by (simp add: ensure_cache_request_ready new_events_def)
  next
    case False
    show ?thesis
    proof (cases "lookup w (lock_key video_id) = None")
      case True
      with Inr False show ?thesis
        by (simp add: ensure_cache_request_acquires new_events_def)
    next
      case nf: False
      with Inr False show ?thesis
        by (simp add: ensure_cache_request_pending new_events_def)
    qed
  qed
qed

lemma ensure_cache_request_ttl_and_job_timeout:
  "(\<forall>ttl \<in> set (lock_ttls (new_events w (snd (ensure_cache_request env video_id w)))).
      \<forall>t \<in> set (job_timeouts (new_events w (snd (ensure_cache_request env video_id w)))).
        ttl = 600 \<and> t = 3600 \<and> ttl < t)
   \<and> (fst (get_media video_id w) = Inr media \<and> \<not> media_ready media
        \<and> lookup w (lock_key video_id) = None
      \<longrightarrow> lock_ttls (new_events w (snd (ensure_cache_request env video_id w))) = [600]
        \<and> job_timeouts (new_events w (snd (ensure_cache_request env video_id w))) = [3600]
        \<and> kv (snd (ensure_cache_request env video_id w)) (lock_key video_id)
            = Some (''1'', Some (now w + 600 * 1000))
        \<and> queue (snd (ensure_cache_request env video_id w))
            = queue w @ [Job (uuid env (issued w)) video_id 3600])"
proof (intro conjI impI)
  show "\<forall>ttl \<in> set (lock_ttls (new_events w (snd (ensure_cache_request env video_id w)))).
      \<forall>t \<in> set (job_timeouts (new_events w (snd (ensure_cache_request env video_id w)))).
        ttl = 600 \<and> t = 3600 \<and> ttl < t"
    using ensure_cache_request_new_events[of w env video_id]
    by (auto simp: lock_ttls_def job_timeouts_def)
next
  assume h: "fst (get_media video_id w) = Inr media \<and> \<not> media_ready media
        \<and> lookup w (lock_key video_id) = None"
  then have a: "fst (get_media video_id w) = Inr media" and b: "\<not> media_ready media"
    and c: "lookup w (lock_key video_id) = None" by simp_all
  note run = ensure_cache_request_acquires[OF a b c, of env]
  show "lock_ttls (new_events w (snd (ensure_cache_request env video_id w))) = [600]"
    by (simp add: run new_events_def lock_ttls_def)
  show "job_timeouts (new_events w (snd (ensure_cache_request env video_id w))) = [3600]"
    by (simp add: run new_events_def job_timeouts_def)
  show "kv (snd (ensure_cache_request env video_id w)) (lock_key video_id)
            = Some (''1'', Some (now w + 600 * 1000))"
    by (simp add: run lock_key_def last_job_key_def)
  show "queue (snd (ensure_cache_request env video_id w))
            = queue w @ [Job (uuid env (issued w)) video_id 3600]"
    by (simp add: run)
qed

definition world_enqueued :: "nat world" where
  \<comment> \<open>the state the call \<open>ensure_cache_request('abc12345678')\<close> leaves on the empty store
      at instant 0: the lock, the last job id, and the job in the queue\<close>
  "world_enqueued = snd (ensure_cache_request env0 ''abc12345678'' world0)"

lemma world_enqueued_run:
  "ensure_cache_request env0 ''abc12345678'' world0 =
     (Inr (example_uuid 0),
      world0\<lparr>kv := (kv world0)(lock_key ''abc12345678'' \<mapsto> (''1'', Some (now world0 + 600 * 1000)),
                     last_job_key ''abc12345678'' \<mapsto>
                       (py_b (example_uuid 0), Some (now world0 + 3600 * 1000))),
        queue := queue world0 @ [Job (example_uuid 0) ''abc12345678'' 3600],
        issued := Suc (issued world0),
        trace := trace world0 @
          [RedisGet (py_b (k_media ''abc12345678'')),
           RedisSetNX (lock_key ''abc12345678'') ''1'' 600 True,
           Enqueue (example_uuid 0) ''abc12345678'' 3600,
           RedisSet (last_job_key ''abc12345678'') (py_b (example_uuid 0)) (Some 3600)]\<rparr>)"
proof -
  have u: "uuid env0 (issued world0) = example_uuid 0"
    by (simp add: env0_def world0_def)
  show ?thesis
    using ensure_cache_request_acquires[OF world0_get_media not_ready_None world0_lookup,
            of env0]
    by (simp only: u)
qed

lemma world_enqueued_fields:
  "now world_enqueued = 0"
  "queue world_enqueued = [Job (example_uuid 0) ''abc12345678'' 3600]"
  "issued world_enqueued = 1"
  "kv world_enqueued (lock_key ''abc12345678'') = Some (''1'', Some 600000)"
  "kv world_enqueued (py_b (k_media ''abc12345678'')) = None"
  "lock_ttls (new_events world0 world_enqueued) = [600]"
  "job_timeouts (new_events world0 world_enqueued) = [3600]"
  unfolding world_enqueued_def world_enqueued_run
  by (simp_all add: world0_def lock_key_def last_job_key_def py_b_def k_media_def
                    new_events_def lock_ttls_def job_timeouts_def)

lemma world_enqueued_later:
  "fst (get_media ''abc12345678'' (advance d world_enqueued)) = Inr None"
  "lookup (advance d world_enqueued) (lock_key ''abc12345678'')
     = (if d \<le> 600000 then Some ''1'' else None)"
  "queue (advance d world_enqueued) = [Job (example_uuid 0) ''abc12345678'' 3600]"
  "issued (advance d world_enqueued) = 1"
  by (simp_all add: get_media_def redis_get_def lookup_def advance_def live_def
                    world_enqueued_fields)

text \<open>
  C4. The lock is acquired with a time-to-live of 600 seconds and the job is enqueued
  with a job timeout of 3600 seconds: the time-to-live does not exceed the job timeout.
  Nothing but the job deletes the lock, so with the job still running (it is within its
  job timeout, and its \<open>finally\<close> clause has not run) the lock is held up to 600 seconds
  after the acquiring call, where a further call returns the empty handle; one
  millisecond later the lock has expired, and a further call acquires it again and
  enqueues a second job for the same identifier.
\<close>

theorem lock_expires_within_job_timeout:
  "lock_ttls (new_events world0 world_enqueued) = [600]
   \<and> job_timeouts (new_events world0 world_enqueued) = [3600]
   \<and> queue world_enqueued = [Job (example_uuid 0) ''abc12345678'' 3600]
   \<and> lookup (advance 600000 world_enqueued) (lock_key ''abc12345678'') = Some ''1''
   \<and> fst (ensure_cache_request env0 ''abc12345678'' (advance 600000 world_enqueued)) = Inr ''''
   \<and> queue (snd (ensure_cache_request env0 ''abc12345678'' (advance 600000 world_enqueued)))
       = [Job (example_uuid 0) ''abc12345678'' 3600]
   \<and> now (advance 600001 world_enqueued) < now world_enqueued + 3600 * 1000
   \<and> trace (advance 600001 world_enqueued) = trace world_enqueued
   \<and> lookup (advance 600001 world_enqueued) (lock_key ''abc12345678'') = None
   \<and> fst (ensure_cache_request env0 ''abc12345678'' (advance 600001 world_enqueued))
       = Inr (example_uuid 1)
   \<and> queue (snd (ensure_cache_request env0 ''abc12345678'' (advance 600001 world_enqueued)))
       = [Job (example_uuid 0) ''abc12345678'' 3600, Job (example_uuid 1) ''abc12345678'' 3600]"
proof -
  let ?a = "advance 600000 world_enqueued" and ?b = "advance 600001 world_enqueued"
  have ga: "fst (get_media ''abc12345678'' ?a) = Inr None"
    and gb: "fst (get_media ''abc12345678'' ?b) = Inr None"
    by (rule world_enqueued_later(1))+
  have la: "lookup ?a (lock_key ''abc12345678'') = Some ''1''"
    and lb: "lookup ?b (lock_key ''abc12345678'') = None"
    by (simp_all add: world_enqueued_later(2))
  have la': "lookup ?a (lock_key ''abc12345678'') \<noteq> None" using la by simp
  have ra: "fst (ensure_cache_request env0 ''abc12345678'' ?a) = Inr ''''"
    and qa: "queue (snd (ensure_cache_request env0 ''abc12345678'' ?a))
             = [Job (example_uuid 0) ''abc12345678'' 3600]"
    by (simp_all add: ensure_cache_request_pending[OF ga not_ready_None la']
                      world_enqueued_later(3))
  have u: "uuid env0 (issued ?b) = example_uuid 1"
    by (simp add: world_enqueued_later(4) env0_def)
  have rb: "fst (ensure_cache_request env0 ''abc12345678'' ?b) = Inr (example_uuid 1)"
    and qb: "queue (snd (ensure_cache_request env0 ''abc12345678'' ?b))
             = [Job (example_uuid 0) ''abc12345678'' 3600,
                Job (example_uuid 1) ''abc12345678'' 3600]"
    by (simp_all add: ensure_cache_request_acquires[OF gb not_ready_None lb] u
                      world_enqueued_later(3))
  have t: "now ?b < now world_enqueued + 3600 * 1000"
    and tr: "trace ?b = trace world_enqueued"
    by (simp_all add: advance_def world_enqueued_fields(1))
  show ?thesis
    using world_enqueued_fields(2,6,7) la ra qa t tr lb rb qb by simp
qed

section \<open>The Retrieval Job (app/jobs.py, app/ytdlp_utils.py)\<close>

definition build_watch_url :: "string \<Rightarrow> string" where
  "build_watch_url video_id = ''https://www.youtube.com/watch?v='' @ video_id"

definition run_ytdlp_download ::
  "'t env \<Rightarrow> string list \<Rightarrow> nat \<Rightarrow> 't world \<Rightarrow> (py_error + int \<times> string \<times> string) \<times> 't world" where
  \<comment> \<open>\<open>subprocess.run\<close> with the given timeout; an exception of it propagates; the call
      takes time and may change the files\<close>
  "run_ytdlp_download env args timeout_seconds w =
     (case subprocess_run env args timeout_seconds (fs w) of
        (r, d, fs') \<Rightarrow>
          (r, w\<lparr>now := now w + d, fs := fs',
                trace := trace w @ [Subprocess args timeout_seconds]\<rparr>))"

definition video_tpl :: "'t env \<Rightarrow> string \<Rightarrow> string" where
  "video_tpl env video_id = os_path_join (MEDIA_ROOT env) (video_id @ ''.video.%(ext)s'')"

definition audio_tpl :: "'t env \<Rightarrow> string \<Rightarrow> string" where
  "audio_tpl env video_id = os_path_join (MEDIA_ROOT env) (video_id @ ''.audio.%(ext)s'')"

definition common :: "string list" where
  "common =
     [''yt-dlp'', ''--no-playlist'', ''--force-ipv4'', ''--newline'', ''--no-continue'',
      ''--no-part'', ''--hls-prefer-native'', ''--retries'', ''5'', ''--fragment-retries'', ''5'',
      ''--retry-sleep'', ''1:3'']"

definition video_format :: string where
  "video_format =
     ''bestvideo[ext=mp4][vcodec^=avc1]/'' @ ''bestvideo[ext=mp4]/'' @
     ''bestvideo[protocol^=m3u8]/'' @ ''bestvideo''"

definition video_args :: "'t env \<Rightarrow> string \<Rightarrow> string list" where
  "video_args env video_id =
     common @
     [''-f'', video_format, ''-o'', video_tpl env video_id, ''--write-subs'', ''--write-auto-subs'',
      ''--sub-format'', ''vtt'', ''--output-na-placeholder'', [CHR 0x22, CHR 0x22],
      build_watch_url video_id]"

definition audio_format :: string where
  "audio_format = ''bestaudio[ext=m4a]/'' @ ''bestaudio[protocol^=m3u8]/'' @ ''bestaudio''"

definition audio_args :: "'t env \<Rightarrow> string \<Rightarrow> string list" where
  "audio_args env video_id =
     common @ [''-f'', audio_format, ''-o'', audio_tpl env video_id, build_watch_url video_id]"

definition video_failed :: "int \<Rightarrow> string \<Rightarrow> py_error" where
  \<comment> \<open>\<open>RuntimeError(f"yt-dlp video download failed (rc={rc_v}): {(err_v or '').strip()}")\<close>\<close>
  "video_failed rc_v err_v =
     RuntimeError (''yt-dlp video download failed (rc='' @ str_int rc_v @ ''): '' @ py_strip err_v)"

definition audio_failed :: "int \<Rightarrow> string \<Rightarrow> py_error" where
  "audio_failed rc_a err_a =
     RuntimeError (''yt-dlp audio download failed (rc='' @ str_int rc_a @ ''): '' @ py_strip err_a)"

definition job_result :: "'t env \<Rightarrow> string \<Rightarrow> nat \<Rightarrow> string \<Rightarrow> string \<Rightarrow> pydict" where
  \<comment> \<open>the dict the job returns\<close>
  "job_result env video_id elapsed vp ap =
     [(''ok'', JBool True),
      (''video_id'', JStr video_id),
      (''job_id'', case current_job env of None \<Rightarrow> JNull | Some j \<Rightarrow> JStr j),
      (''elapsed_ms'', JInt (int elapsed)),
      (''video_path'', JStr vp),
      (''audio_path'', JStr ap)]"

definition resolve_and_publish ::
  "('t::linorder) env \<Rightarrow> string \<Rightarrow> nat \<Rightarrow> 't world \<Rightarrow> (py_error + pydict) \<times> 't world" where
  \<comment> \<open>the \<open>try\<close> block from "Resolve actual output files" on; \<open>if not video_path\<close> is true
      for \<open>None\<close> and for the empty string\<close>
  "resolve_and_publish env video_id started_at w =
     (let v_paths = glob (fs w) (os_path_join (MEDIA_ROOT env) (video_id @ ''.video.*''));
          a_paths = glob (fs w) (os_path_join (MEDIA_ROOT env) (video_id @ ''.audio.*''));
          video_path = pick_newest_nonempty (fs w) v_paths;
          audio_path = pick_newest_nonempty (fs w) a_paths
      in case video_path of
           None \<Rightarrow>
             (Inl (RuntimeError ''Video download finished but output file is missing or empty''), w)
         | Some vp \<Rightarrow>
             if vp = [] then
               (Inl (RuntimeError ''Video download finished but output file is missing or empty''), w)
             else
               (case audio_path of
                  None \<Rightarrow>
                    (Inl (RuntimeError ''Audio download finished but output file is missing or empty''), w)
                | Some ap \<Rightarrow>
                    if ap = [] then
                      (Inl (RuntimeError ''Audio download finished but output file is missing or empty''), w)
                    else
                      let payload = media_payload video_id (build_watch_url video_id) vp ap
                                      (int (now w div 1000));
                          w' = store_media video_id payload w
                      in (Inr (job_result env video_id (now w' - started_at) vp ap), w')))"

definition job_body ::
  "('t::linorder) env \<Rightarrow> string \<Rightarrow> nat \<Rightarrow> 't world \<Rightarrow> (py_error + pydict) \<times> 't world" where
  \<comment> \<open>the \<open>try\<close> block of \<open>download_av_job\<close>; the two \<open>logger.warning\<close> calls are left out\<close>
  "job_body env video_id started_at w =
     (case run_ytdlp_download env (video_args env video_id) 1800 w of
        (Inl e, w1) \<Rightarrow> (Inl e, w1)
      | (Inr (rc_v, out_v, err_v), w1) \<Rightarrow>
          if rc_v \<noteq> 0 then (Inl (video_failed rc_v err_v), w1)
          else
            (case run_ytdlp_download env (audio_args env video_id) 1800 w1 of
               (Inl e, w2) \<Rightarrow> (Inl e, w2)
             | (Inr (rc_a, out_a, err_a), w2) \<Rightarrow>
                 if rc_a \<noteq> 0 then (Inl (audio_failed rc_a err_a), w2)
                 else resolve_and_publish env video_id started_at w2))"

definition download_av_job ::
  "('t::linorder) env \<Rightarrow> string \<Rightarrow> 't world \<Rightarrow> (py_error + pydict) \<times> 't world" where
  \<comment> \<open>\<open>os.makedirs\<close> stands before the \<open>try\<close>: when it raises, the \<open>finally\<close> clause is not
      entered. From the \<open>try\<close> on, \<open>release_lock\<close> runs after the body whatever its outcome\<close>
  "download_av_job env video_id w =
     (let started_at = now w
      in if \<not> makedirs_ok (fs w) (MEDIA_ROOT env) then (Inl OSError, w)
         else (case job_body env video_id started_at w of
                 (r, w') \<Rightarrow> (r, release_lock video_id w')))"

subsection \<open>What each path of the job does to the store and the trace\<close>

lemma py_strip_within:
  "\<exists>a b. s = a @ py_strip s @ b \<and> (\<forall>c \<in> set a. py_isspace c) \<and> (\<forall>c \<in> set b. py_isspace c)"
proof -
  let ?ys = "dropWhile py_isspace s"
  have split_rev: "xs = rev (dropWhile P (rev xs)) @ rev (takeWhile P (rev xs))"
    for P :: "char \<Rightarrow> bool" and xs
  proof -
    have "rev (rev (dropWhile P (rev xs)) @ rev (takeWhile P (rev xs)))
          = takeWhile P (rev xs) @ dropWhile P (rev xs)"
      by (simp only: rev_append rev_rev_ident)
    also have "\<dots> = rev xs" by (rule takeWhile_dropWhile_id)
    finally show ?thesis by (simp only: rev_is_rev_conv)
  qed
  have ys: "?ys = py_strip s @ rev (takeWhile py_isspace (rev ?ys))"
    unfolding py_strip_def by (rule split_rev)
  have "s = takeWhile py_isspace s @ ?ys" by simp
  then have "s = takeWhile py_isspace s @ py_strip s @ rev (takeWhile py_isspace (rev ?ys))"
    using ys by metis
  moreover have "\<forall>c \<in> set (takeWhile py_isspace s). py_isspace c"
    by (auto dest: set_takeWhileD)
  moreover have "\<forall>c \<in> set (rev (takeWhile py_isspace (rev ?ys))). py_isspace c"
    by (auto dest: set_takeWhileD)
  ultimately show ?thesis by blast
qed

lemma new_events_append: "trace w' = trace w @ xs \<Longrightarrow> new_events w w' = xs"
  by (simp add: new_events_def)

lemma job_body_video_failed:
  assumes "subprocess_run env (video_args env video_id) 1800 (fs w) = (Inr (rc, out, err), d, f')"
      and "rc \<noteq> 0"
  shows "job_body env video_id t0 w =
           (Inl (video_failed rc err),
            w\<lparr>now := now w + d, fs := f',
              trace := trace w @ [Subprocess (video_args env video_id) 1800]\<rparr>)"
  using assms by (simp add: job_body_def run_ytdlp_download_def)

lemma job_body_video_raised:
  assumes "subprocess_run env (video_args env video_id) 1800 (fs w) = (Inl e, d, f')"
  shows "job_body env video_id t0 w =
           (Inl e,
            w\<lparr>now := now w + d, fs := f',
              trace := trace w @ [Subprocess (video_args env video_id) 1800]\<rparr>)"
  using assms by (simp add: job_body_def run_ytdlp_download_def)

lemma lookup_release_lock: "lookup (release_lock video_id w) (lock_key video_id) = None"
  by (simp add: lock_key_def py_b_def k_lock_def release_lock_def redis_delete_def lookup_def)

lemma release_lock_absent_noop:
  "kv w (py_b (k_lock video_id)) = None \<Longrightarrow> kv (release_lock video_id w) = kv w"
  by (auto simp: release_lock_def redis_delete_def)

lemma release_lock_trace:
  "trace (release_lock video_id w) = trace w @ [RedisDelete (py_b (k_lock video_id))]"
  by (simp add: release_lock_def redis_delete_def)

lemma download_av_job_releases:
  assumes "makedirs_ok (fs w) (MEDIA_ROOT env)"
  shows "lookup (snd (download_av_job env video_id w)) (lock_key video_id) = None
       \<and> (\<exists>xs. trace (snd (download_av_job env video_id w))
                  = xs @ [RedisDelete (py_b (k_lock video_id))])"
  using assms
  by (simp add: download_av_job_def Let_def lookup_release_lock release_lock_trace
           split: prod.splits)

definition world_locked :: "nat world" where
  \<comment> \<open>the state right after \<open>ensure_cache_request\<close> has acquired the lock of
      \<open>abc12345678\<close> and enqueued its job\<close>
  "world_locked =
     \<lparr> now = 0,
       kv = [lock_key ''abc12345678'' \<mapsto> (''1'', Some 600000)],
       queue = [Job (example_uuid 0) ''abc12345678'' 3600],
       issued = 1, fs = fs_example, trace = [] \<rparr>"

text \<open>
  C3. For every identifier, a job whose video invocation returns a non-zero exit status
  fails with the \<open>RuntimeError\<close> whose message ends with the tool's stderr (stripped of
  surrounding whitespace); the commands it issues are the one tool invocation and then
  the deletion of the lock key, so \<open>store_media\<close> is not called and the metadata key is
  as before; and the lock is released.
\<close>

theorem video_failure_no_metadata_lock_released:
  assumes "makedirs_ok (fs w) (MEDIA_ROOT env)"
      and "subprocess_run env (video_args env video_id) 1800 (fs w) = (Inr (rc, out, err), d, f')"
      and "rc \<noteq> 0"
  shows "fst (download_av_job env video_id w)
           = Inl (RuntimeError (''yt-dlp video download failed (rc='' @ str_int rc @ ''): ''
                                @ py_strip err))
       \<and> (\<exists>a b. err = a @ py_strip err @ b
                \<and> (\<forall>c \<in> set a. py_isspace c) \<and> (\<forall>c \<in> set b. py_isspace c))
       \<and> new_events w (snd (download_av_job env video_id w))
           = [Subprocess (video_args env video_id) 1800, RedisDelete (py_b (k_lock video_id))]
       \<and> kv (snd (download_av_job env video_id w)) = (kv w)(py_b (k_lock video_id) := None)
       \<and> kv (snd (download_av_job env video_id w)) (py_b (k_media video_id))
           = kv w (py_b (k_media video_id))
       \<and> lookup (snd (download_av_job env video_id w)) (lock_key video_id) = None"
proof -
  let ?w1 = "w\<lparr>now := now w + d, fs := f',
                trace := trace w @ [Subprocess (video_args env video_id) 1800]\<rparr>"
  have body: "job_body env video_id (now w) w = (Inl (video_failed rc err), ?w1)"
    using assms(2,3) by (rule job_body_video_failed)
  have run: "download_av_job env video_id w = (Inl (video_failed rc err), release_lock video_id ?w1)"
    using assms(1) by (simp add: download_av_job_def Let_def body)
  have tr: "trace (release_lock video_id ?w1)
            = trace w @ [Subprocess (video_args env video_id) 1800,
                         RedisDelete (py_b (k_lock video_id))]"
    by (simp add: release_lock_trace)
  have keys: "py_b (k_media video_id) \<noteq> py_b (k_lock video_id)"
    by (simp add: py_b_def k_media_def k_lock_def)
  show ?thesis
    using py_strip_within[of err] keys
    by (simp add: run video_failed_def new_events_append[OF tr] lookup_release_lock)
       (simp add: release_lock_def redis_delete_def)
qed

theorem video_failure_no_metadata_lock_released_witness:
  "makedirs_ok (fs world_locked) (MEDIA_ROOT env0)
   \<and> subprocess_run env0 (video_args env0 ''abc12345678'') 1800 (fs world_locked)
       = (Inr (1, '''', '' ERROR: unavailable '' @ [CHR 0x0A]), 700000, fs world_locked)
   \<and> (1::int) \<noteq> 0
   \<and> lookup world_locked (lock_key ''abc12345678'') = Some ''1''
   \<and> fst (download_av_job env0 ''abc12345678'' world_locked)
       = Inl (RuntimeError (''yt-dlp video download failed (rc='' @ str_int 1 @ ''): ''
                            @ py_strip ('' ERROR: unavailable '' @ [CHR 0x0A])))
   \<and> py_strip ('' ERROR: unavailable '' @ [CHR 0x0A]) = ''ERROR: unavailable''
   \<and> new_events world_locked (snd (download_av_job env0 ''abc12345678'' world_locked))
       = [Subprocess (video_args env0 ''abc12345678'') 1800,
          RedisDelete (py_b (k_lock ''abc12345678''))]
   \<and> lookup (snd (download_av_job env0 ''abc12345678'' world_locked)) (lock_key ''abc12345678'')
       = None"
proof -
  have h1: "makedirs_ok (fs world_locked) (MEDIA_ROOT env0)"
    by (simp add: world_locked_def fs_example_def)
  have h2: "subprocess_run env0 (video_args env0 ''abc12345678'') 1800 (fs world_locked)
       = (Inr (1, '''', '' ERROR: unavailable '' @ [CHR 0x0A]), 700000, fs world_locked)"
    by (simp add: env0_def example_tool_def)
  have h3: "(1::int) \<noteq> 0" by simp
  have held: "lookup world_locked (lock_key ''abc12345678'') = Some ''1''"
    by (simp add: lookup_def world_locked_def live_def)
  have strip: "py_strip ('' ERROR: unavailable '' @ [CHR 0x0A]) = ''ERROR: unavailable''"
    by (simp add: py_strip_def py_isspace_def)
  from video_failure_no_metadata_lock_released[OF h1 h2 h3] h1 h2 held strip
  show ?thesis by simp
qed

definition invocations :: "event list \<Rightarrow> (string list \<times> nat) list" where
  \<comment> \<open>the tool invocations of a trace, in order: argument vector and timeout in seconds\<close>
  "invocations tr = concat (map (\<lambda>e. case e of Subprocess a t \<Rightarrow> [(a, t)] | _ \<Rightarrow> []) tr)"

lemma resolve_and_publish_trace:
  "\<exists>xs. trace (snd (resolve_and_publish env video_id t0 w)) = trace w @ xs
        \<and> invocations xs = []"
  by (auto simp: resolve_and_publish_def Let_def store_media_def redis_set_def invocations_def
           split: option.splits)

lemma job_body_trace:
  "\<exists>xs. trace (snd (job_body env video_id t0 w)) = trace w @ xs
        \<and> (invocations xs = [(video_args env video_id, 1800)]
           \<or> invocations xs = [(video_args env video_id, 1800), (audio_args env video_id, 1800)])
        \<and> ((\<exists>out err d f'. subprocess_run env (video_args env video_id) 1800 (fs w)
                              = (Inr (0, out, err), d, f'))
             \<longrightarrow> invocations xs
                   = [(video_args env video_id, 1800), (audio_args env video_id, 1800)])"
proof -
  let ?v = "video_args env video_id" and ?a = "audio_args env video_id"
  obtain r1 d1 f1 where s1: "subprocess_run env ?v 1800 (fs w) = (r1, d1, f1)"
    by (metis prod_cases3)
  let ?w1 = "w\<lparr>now := now w + d1, fs := f1, trace := trace w @ [Subprocess ?v 1800]\<rparr>"
  have run1: "run_ytdlp_download env ?v 1800 w = (r1, ?w1)"
    by (simp add: run_ytdlp_download_def s1)
  show ?thesis
  proof (cases r1)
    case (Inl e)
    then have "job_body env video_id t0 w = (Inl e, ?w1)"
      by (simp add: job_body_def run1)
    then show ?thesis using s1 Inl
      by (intro exI[of _ "[Subprocess ?v 1800]"]) (simp add: invocations_def)
  next
    case (Inr p)
    obtain rc out err where p: "p = (rc, out, err)" by (metis prod_cases3)
    show ?thesis
    proof (cases "rc = 0")
      case False
      then have "job_body env video_id t0 w = (Inl (video_failed rc err), ?w1)"
        by (simp add: job_body_def run1 Inr p)
      then show ?thesis using s1 Inr p False
        by (intro exI[of _ "[Subprocess ?v 1800]"]) (simp add: invocations_def)
    next
      case True
      obtain r2 d2 f2 where s2: "subprocess_run env ?a 1800 f1 = (r2, d2, f2)"
        by (metis prod_cases3)
      let ?w2 = "?w1\<lparr>now := now ?w1 + d2, fs := f2, trace := trace ?w1 @ [Subprocess ?a 1800]\<rparr>"
      have run2: "run_ytdlp_download env ?a 1800 ?w1 = (r2, ?w2)"
        by (simp add: run_ytdlp_download_def s2)
      have tr2: "trace ?w2 = trace w @ [Subprocess ?v 1800, Subprocess ?a 1800]"
        by simp
      have inv2: "invocations [Subprocess ?v 1800, Subprocess ?a 1800] = [(?v, 1800), (?a, 1800)]"
        by (simp add: invocations_def)
      have "\<exists>xs. trace (snd (job_body env video_id t0 w)) = trace w @ xs
              \<and> invocations xs = [(?v, 1800), (?a, 1800)]"
      proof (cases r2)
        case (Inl e)
        then have "job_body env video_id t0 w = (Inl e, ?w2)"
          using True by (simp add: job_body_def run1 Inr p run2)
        then show ?thesis using tr2 inv2 by (metis snd_conv)
      next
        case r2: (Inr p2)
        obtain rc2 out2 err2 where p2: "p2 = (rc2, out2, err2)" by (metis prod_cases3)
        show ?thesis
        proof (cases "rc2 = 0")
          case False
          then have "job_body env video_id t0 w = (Inl (audio_failed rc2 err2), ?w2)"
            using True by (simp add: job_body_def run1 Inr p run2 r2 p2)
          then show ?thesis using tr2 inv2 by (metis snd_conv)
        next
          case ok: True
          have jb: "job_body env video_id t0 w = resolve_and_publish env video_id t0 ?w2"
            using True ok by (simp add: job_body_def run1 Inr p run2 r2 p2)
          obtain ys where ys: "trace (snd (resolve_and_publish env video_id t0 ?w2))
                                 = trace ?w2 @ ys" "invocations ys = []"
            using resolve_and_publish_trace by blast
          have "trace (snd (job_body env video_id t0 w))
                = trace w @ ([Subprocess ?v 1800, Subprocess ?a 1800] @ ys)"
            using jb ys(1) tr2 by simp
          moreover have "invocations ([Subprocess ?v 1800, Subprocess ?a 1800] @ ys)
                         = [(?v, 1800), (?a, 1800)]"
            using ys(2) by (simp add: invocations_def)
          ultimately show ?thesis by blast
        qed
      qed
      then show ?thesis by blast
    qed
  qed
qed

lemma download_av_job_invocations:
  "(invocations (new_events w (snd (download_av_job env video_id w))) = []
    \<or> invocations (new_events w (snd (download_av_job env video_id w)))
        = [(video_args env video_id, 1800)]
    \<or> invocations (new_events w (snd (download_av_job env video_id w)))
        = [(video_args env video_id, 1800), (audio_args env video_id, 1800)])
   \<and> (makedirs_ok (fs w) (MEDIA_ROOT env)
       \<and> (\<exists>out err d f'. subprocess_run env (video_args env video_id) 1800 (fs w)
                            = (Inr (0, out, err), d, f'))
      \<longrightarrow> invocations (new_events w (snd (download_av_job env video_id w)))
            = [(video_args env video_id, 1800), (audio_args env video_id, 1800)])"
proof (cases "makedirs_ok (fs w) (MEDIA_ROOT env)")
  case False
  then have "download_av_job env video_id w = (Inl OSError, w)"
    by (simp add: download_av_job_def)
  then show ?thesis using False by (simp add: new_events_def invocations_def)
next
  case True
  obtain xs where xs: "trace (snd (job_body env video_id (now w) w)) = trace w @ xs"
      "invocations xs = [(video_args env video_id, 1800)]
       \<or> invocations xs = [(video_args env video_id, 1800), (audio_args env video_id, 1800)]"
      "(\<exists>out err d f'. subprocess_run env (video_args env video_id) 1800 (fs w)
                              = (Inr (0, out, err), d, f'))
       \<longrightarrow> invocations xs
             = [(video_args env video_id, 1800), (audio_args env video_id, 1800)]"
    using job_body_trace[of env video_id "now w" w] by blast
  have "snd (download_av_job env video_id w)
        = release_lock video_id (snd (job_body env video_id (now w) w))"
    using True by (simp add: download_av_job_def Let_def split: prod.splits)
  then have "trace (snd (download_av_job env video_id w))
        = trace w @ (xs @ [RedisDelete (py_b (k_lock video_id))])"
    using xs(1) by (simp add: release_lock_trace)
  then have ne: "new_events w (snd (download_av_job env video_id w))
        = xs @ [RedisDelete (py_b (k_lock video_id))]"
    by (rule new_events_append)
  have "invocations (xs @ [RedisDelete (py_b (k_lock video_id))]) = invocations xs"
    by (simp add: invocations_def)
  then show ?thesis using xs(2,3) ne by simp
qed

lemma download_av_job_video_not_ok:
  assumes mk: "makedirs_ok (fs w) (MEDIA_ROOT env)"
      and no: "\<not> (\<exists>out err d f'. subprocess_run env (video_args env video_id) 1800 (fs w)
                                    = (Inr (0, out, err), d, f'))"
  shows "invocations (new_events w (snd (download_av_job env video_id w)))
         = [(video_args env video_id, 1800)]"
proof -
  let ?v = "video_args env video_id"
  obtain r d f' where s: "subprocess_run env ?v 1800 (fs w) = (r, d, f')"
    by (metis prod_cases3)
  have "\<exists>e. job_body env video_id (now w) w
              = (Inl e, w\<lparr>now := now w + d, fs := f',
                           trace := trace w @ [Subprocess ?v 1800]\<rparr>)"
  proof (cases r)
    case (Inl e)
    with s show ?thesis using job_body_video_raised[of env video_id w e d f' "now w"] by simp
  next
    case (Inr p)
    obtain rc out err where p: "p = (rc, out, err)" by (metis prod_cases3)
    have "rc \<noteq> 0" using no s Inr p by auto
    with s Inr p show ?thesis
      using job_body_video_failed[of env video_id w rc out err d f' "now w"] by simp
  qed
  then obtain e where body: "job_body env video_id (now w) w
              = (Inl e, w\<lparr>now := now w + d, fs := f',
                           trace := trace w @ [Subprocess ?v 1800]\<rparr>)"
    by blast
  have "trace (snd (download_av_job env video_id w))
        = trace w @ [Subprocess ?v 1800, RedisDelete (py_b (k_lock video_id))]"
    using mk by (simp add: download_av_job_def Let_def body release_lock_trace)
  from new_events_append[OF this] show ?thesis by (simp add: invocations_def)
qed

lemma download_av_job_invocations_exact:
  "invocations (new_events w (snd (download_av_job env video_id w))) =
     (if \<not> makedirs_ok (fs w) (MEDIA_ROOT env) then []
      else if (\<exists>out err d f'. subprocess_run env (video_args env video_id) 1800 (fs w)
                                 = (Inr (0, out, err), d, f'))
           then [(video_args env video_id, 1800), (audio_args env video_id, 1800)]
           else [(video_args env video_id, 1800)])"
proof (cases "makedirs_ok (fs w) (MEDIA_ROOT env)")
  case False
  then have "download_av_job env video_id w = (Inl OSError, w)"
    by (simp add: download_av_job_def)
  then show ?thesis using False by (simp add: new_events_def invocations_def)
next
  case True
  show ?thesis
  proof (cases "\<exists>out err d f'. subprocess_run env (video_args env video_id) 1800 (fs w)
                                 = (Inr (0, out, err), d, f')")
    case ok: True
    with True download_av_job_invocations[of w env video_id] show ?thesis by simp
  next
    case False
    with True download_av_job_video_not_ok[of w env video_id] show ?thesis by simp
  qed
qed

subsection \<open>The tool invocations of a job\<close>

fun fallback_chain :: "string \<Rightarrow> string list" where
  \<comment> \<open>the alternatives of a format-selection expression: the tool tries the parts
      separated by \<open>/\<close> from left to right\<close>
  "fallback_chain [] = [[]]"
| "fallback_chain (c # cs) =
     (case fallback_chain cs of
        [] \<Rightarrow> if c = CHR ''/'' then [[], []] else [[c]]
      | x # xs \<Rightarrow> if c = CHR ''/'' then [] # x # xs else (c # x) # xs)"

fun option_value :: "string \<Rightarrow> string list \<Rightarrow> string option" where
  \<comment> \<open>the argument that follows the first occurrence of an option in an argument vector\<close>
  "option_value opt [] = None"
| "option_value opt [x] = None"
| "option_value opt (x # y # ys) = (if x = opt then Some y else option_value opt (y # ys))"

definition fs_done :: "nat fsys" where
  \<comment> \<open>the directory after both downloads: a stale zero-byte video file of an earlier
      attempt, the new video file and the new audio file\<close>
  "fs_done =
     \<lparr> isfile = (\<lambda>p. p \<in> {''/data/abc12345678.video.webm'', ''/data/abc12345678.video.mp4'',
                            ''/data/abc12345678.audio.m4a''}),
       getsize = (\<lambda>p. if p = ''/data/abc12345678.video.mp4'' then 5000000
                       else if p = ''/data/abc12345678.audio.m4a'' then 300000 else 0),
       getmtime = (\<lambda>p. if p = ''/data/abc12345678.video.mp4'' then 200
                        else if p = ''/data/abc12345678.audio.m4a'' then 250 else 100),
       glob = (\<lambda>pat. if pat = ''/data/abc12345678.video.*''
                        then [''/data/abc12345678.video.webm'', ''/data/abc12345678.video.mp4'']
                      else if pat = ''/data/abc12345678.audio.*''
                        then [''/data/abc12345678.audio.m4a'']
                      else []),
       makedirs_ok = (\<lambda>_. True) \<rparr>"

definition example_tool_ok ::
  "string list \<Rightarrow> nat \<Rightarrow> nat fsys \<Rightarrow> (py_error + int \<times> string \<times> string) \<times> nat \<times> nat fsys" where
  \<comment> \<open>a tool that exits with status 0 after 700 seconds and leaves the files of \<open>fs_done\<close>\<close>
  "example_tool_ok args t f = (Inr (0, '''', ''''), 700000, fs_done)"

definition env_ok :: "nat env" where
  "env_ok = \<lparr> MEDIA_ROOT = ''/data'', uuid = example_uuid, current_job = Some ''job-0'',
              subprocess_run = example_tool_ok \<rparr>"

lemma example_failed_invocations:
  "invocations (new_events world_locked (snd (download_av_job env0 ''abc12345678'' world_locked)))
   = [(video_args env0 ''abc12345678'', 1800)]"
proof -
  have h2: "subprocess_run env0 (video_args env0 ''abc12345678'') 1800 (fs world_locked)
       = (Inr (1, '''', '' ERROR: unavailable '' @ [CHR 0x0A]), 700000, fs world_locked)"
    by (simp add: env0_def example_tool_def)
  have mk: "makedirs_ok (fs world_locked) (MEDIA_ROOT env0)"
    by (simp add: world_locked_def fs_example_def)
  have body: "job_body env0 ''abc12345678'' (now world_locked) world_locked
     = (Inl (video_failed 1 ('' ERROR: unavailable '' @ [CHR 0x0A])),
        world_locked\<lparr>now := now world_locked + 700000, fs := fs world_locked,
          trace := trace world_locked @ [Subprocess (video_args env0 ''abc12345678'') 1800]\<rparr>)"
    by (rule job_body_video_failed[OF h2]) simp
  have "trace (snd (download_av_job env0 ''abc12345678'' world_locked))
        = trace world_locked @ [Subprocess (video_args env0 ''abc12345678'') 1800,
                                RedisDelete (py_b (k_lock ''abc12345678''))]"
    using mk by (simp add: download_av_job_def Let_def body release_lock_trace)
  from new_events_append[OF this] show ?thesis by (simp add: invocations_def)
qed

lemma example_ok_invocations:
  "invocations (new_events world_locked (snd (download_av_job env_ok ''abc12345678'' world_locked)))
   = [(video_args env_ok ''abc12345678'', 1800), (audio_args env_ok ''abc12345678'', 1800)]"
proof -
  have mk: "makedirs_ok (fs world_locked) (MEDIA_ROOT env_ok)"
    by (simp add: world_locked_def fs_example_def)
  have "subprocess_run env_ok (video_args env_ok ''abc12345678'') 1800 (fs world_locked)
        = (Inr (0, '''', ''''), 700000, fs_done)"
    by (simp add: env_ok_def example_tool_ok_def)
  then have "\<exists>out err d f'. subprocess_run env_ok (video_args env_ok ''abc12345678'') 1800
                 (fs world_locked) = (Inr (0, out, err), d, f')"
    by blast
  with mk download_av_job_invocations[of world_locked env_ok "''abc12345678''"]
  show ?thesis by blast
qed

lemma fallback_chain_video:
  "fallback_chain video_format =
     [''bestvideo[ext=mp4][vcodec^=avc1]'', ''bestvideo[ext=mp4]'',
      ''bestvideo[protocol^=m3u8]'', ''bestvideo'']"
  by (simp add: video_format_def)

lemma fallback_chain_audio:
  "fallback_chain audio_format =
     [''bestaudio[ext=m4a]'', ''bestaudio[protocol^=m3u8]'', ''bestaudio'']"
  by (simp add: audio_format_def)

text \<open>
  C9, as the code has it. A job invokes the tool at most twice and in sequence, each
  invocation a blocking call with a timeout of 1800 seconds: the video-only invocation
  first, and the audio-only invocation after it if and only if the video invocation was
  made and returned exit status 0. So the invocations of a job are none when the media
  directory cannot be made, the video invocation alone when it raises or returns a
  non-zero status, and the video invocation followed by the audio invocation otherwise.
  Each invocation carries, after \<open>-o\<close>, the template
  \<open>os.path.join(MEDIA_ROOT, video_id.kind.%(ext)s)\<close>, which for a non-empty \<open>MEDIA_ROOT\<close>
  and an identifier that does not begin with a separator is of the form
  \<open>directory/video_id.kind.%(ext)s\<close>, the directory being \<open>MEDIA_ROOT\<close> up to one
  trailing separator; and, after \<open>-f\<close>, its own format-selection expression: for video
  a chain of four alternatives (avc1 in mp4, any mp4, an HLS variant, any best video),
  for audio a chain of three (the m4a container, an HLS variant, any best audio).
\<close>

theorem job_invocations_and_formats:
  "invocations (new_events w (snd (download_av_job env video_id w))) =
     (if \<not> makedirs_ok (fs w) (MEDIA_ROOT env) then []
      else if (\<exists>out err d f'. subprocess_run env (video_args env video_id) 1800 (fs w)
                                 = (Inr (0, out, err), d, f'))
           then [(video_args env video_id, 1800), (audio_args env video_id, 1800)]
           else [(video_args env video_id, 1800)])
   \<and> option_value ''-f'' (video_args env video_id) = Some video_format
   \<and> option_value ''-o'' (video_args env video_id) = Some (video_tpl env video_id)
   \<and> option_value ''-f'' (audio_args env video_id) = Some audio_format
   \<and> option_value ''-o'' (audio_args env video_id) = Some (audio_tpl env video_id)
   \<and> (MEDIA_ROOT env \<noteq> [] \<and> (video_id = [] \<or> hd video_id \<noteq> CHR ''/'')
      \<longrightarrow> (\<exists>dir. (MEDIA_ROOT env = dir \<or> MEDIA_ROOT env = dir @ ''/'')
             \<and> video_tpl env video_id = dir @ ''/'' @ video_id @ ''.video.%(ext)s''
             \<and> audio_tpl env video_id = dir @ ''/'' @ video_id @ ''.audio.%(ext)s''))
   \<and> fallback_chain video_format =
        [''bestvideo[ext=mp4][vcodec^=avc1]'', ''bestvideo[ext=mp4]'',
         ''bestvideo[protocol^=m3u8]'', ''bestvideo'']
   \<and> fallback_chain audio_format =
        [''bestaudio[ext=m4a]'', ''bestaudio[protocol^=m3u8]'', ''bestaudio'']"
proof -
  have opts: "option_value ''-f'' (video_args env video_id) = Some video_format"
      "option_value ''-o'' (video_args env video_id) = Some (video_tpl env video_id)"
      "option_value ''-f'' (audio_args env video_id) = Some audio_format"
      "option_value ''-o'' (audio_args env video_id) = Some (audio_tpl env video_id)"
    by (simp_all add: video_args_def audio_args_def common_def video_format_def
                      audio_format_def)
  have tpl: "\<exists>dir. (MEDIA_ROOT env = dir \<or> MEDIA_ROOT env = dir @ ''/'')
             \<and> video_tpl env video_id = dir @ ''/'' @ video_id @ ''.video.%(ext)s''
             \<and> audio_tpl env video_id = dir @ ''/'' @ video_id @ ''.audio.%(ext)s''"
    if h: "MEDIA_ROOT env \<noteq> [] \<and> (video_id = [] \<or> hd video_id \<noteq> CHR ''/'')"
  proof (cases "last (MEDIA_ROOT env) = CHR ''/''")
    case True
    with h have m: "MEDIA_ROOT env = butlast (MEDIA_ROOT env) @ ''/''"
      using append_butlast_last_id[of "MEDIA_ROOT env"] by simp
    have "video_tpl env video_id = MEDIA_ROOT env @ video_id @ ''.video.%(ext)s''"
         "audio_tpl env video_id = MEDIA_ROOT env @ video_id @ ''.audio.%(ext)s''"
      using h True by (cases video_id; simp add: video_tpl_def audio_tpl_def os_path_join_def)+
    then have "video_tpl env video_id
                 = butlast (MEDIA_ROOT env) @ ''/'' @ video_id @ ''.video.%(ext)s''"
         "audio_tpl env video_id
                 = butlast (MEDIA_ROOT env) @ ''/'' @ video_id @ ''.audio.%(ext)s''"
      using m by (metis append_assoc)+
    with m show ?thesis by blast
  next
    case False
    have "video_tpl env video_id = MEDIA_ROOT env @ ''/'' @ video_id @ ''.video.%(ext)s''"
         "audio_tpl env video_id = MEDIA_ROOT env @ ''/'' @ video_id @ ''.audio.%(ext)s''"
      using h False by (cases video_id; simp add: video_tpl_def audio_tpl_def os_path_join_def)+
    then show ?thesis by blast
  qed
  from download_av_job_invocations_exact[of w env video_id] opts tpl
       fallback_chain_video fallback_chain_audio
  show ?thesis by blast
qed

theorem job_invocations_and_formats_witness:
  "makedirs_ok (fs world_locked) (MEDIA_ROOT env_ok)
   \<and> subprocess_run env_ok (video_args env_ok ''abc12345678'') 1800 (fs world_locked)
       = (Inr (0, '''', ''''), 700000, fs_done)
   \<and> invocations (new_events world_locked
        (snd (download_av_job env_ok ''abc12345678'' world_locked)))
       = [(video_args env_ok ''abc12345678'', 1800), (audio_args env_ok ''abc12345678'', 1800)]
   \<and> MEDIA_ROOT env_ok \<noteq> [] \<and> hd ''abc12345678'' \<noteq> CHR ''/''
   \<and> (\<exists>dir. (MEDIA_ROOT env_ok = dir \<or> MEDIA_ROOT env_ok = dir @ ''/'')
         \<and> video_tpl env_ok ''abc12345678'' = dir @ ''/'' @ ''abc12345678'' @ ''.video.%(ext)s''
         \<and> audio_tpl env_ok ''abc12345678'' = dir @ ''/'' @ ''abc12345678'' @ ''.audio.%(ext)s'')
   \<and> video_tpl env_ok ''abc12345678'' = ''/data/abc12345678.video.%(ext)s''
   \<and> audio_tpl env_ok ''abc12345678'' = ''/data/abc12345678.audio.%(ext)s''"
proof -
  have mk: "makedirs_ok (fs world_locked) (MEDIA_ROOT env_ok)"
    by (simp add: world_locked_def fs_example_def)
  have run: "subprocess_run env_ok (video_args env_ok ''abc12345678'') 1800 (fs world_locked)
        = (Inr (0, '''', ''''), 700000, fs_done)"
    by (simp add: env_ok_def example_tool_ok_def)
  have root: "MEDIA_ROOT env_ok = ''/data''" by (simp add: env_ok_def)
  have pre: "MEDIA_ROOT env_ok \<noteq> [] \<and> (''abc12345678'' = [] \<or> hd ''abc12345678'' \<noteq> CHR ''/'')"
    by (simp add: root)
  have ex: "\<exists>out err d f'. subprocess_run env_ok (video_args env_ok ''abc12345678'') 1800
                 (fs world_locked) = (Inr (0, out, err), d, f')"
    using run by blast
  have v: "video_tpl env_ok ''abc12345678'' = ''/data/abc12345678.video.%(ext)s''"
    and a: "audio_tpl env_ok ''abc12345678'' = ''/data/abc12345678.audio.%(ext)s''"
    by (simp_all add: video_tpl_def audio_tpl_def os_path_join_def root)
  note inst = job_invocations_and_formats[of world_locked env_ok "''abc12345678''"]
  have i: "invocations (new_events world_locked
          (snd (download_av_job env_ok ''abc12345678'' world_locked)))
        = [(video_args env_ok ''abc12345678'', 1800), (audio_args env_ok ''abc12345678'', 1800)]"
    using inst mk ex by simp
  have t: "\<exists>dir. (MEDIA_ROOT env_ok = dir \<or> MEDIA_ROOT env_ok = dir @ ''/'')
         \<and> video_tpl env_ok ''abc12345678'' = dir @ ''/'' @ ''abc12345678'' @ ''.video.%(ext)s''
         \<and> audio_tpl env_ok ''abc12345678'' = dir @ ''/'' @ ''abc12345678'' @ ''.audio.%(ext)s''"
    using inst pre by blast
  show ?thesis using mk run i t v a pre by simp
qed

text \<open>
  The claim as stated fails: the job whose video invocation exits with status 1 invokes
  the tool once, not twice; and the audio expression has three alternatives, not four.
\<close>

theorem job_invocations_and_formats_counterexample:
  "\<not> (length (invocations (new_events world_locked
                 (snd (download_av_job env0 ''abc12345678'' world_locked)))) = 2
       \<and> length (fallback_chain video_format) = 4
       \<and> length (fallback_chain audio_format) = 4)
   \<and> invocations (new_events world_locked
        (snd (download_av_job env0 ''abc12345678'' world_locked)))
       = [(video_args env0 ''abc12345678'', 1800)]
   \<and> length (fallback_chain audio_format) = 3"
  by (simp add: example_failed_invocations fallback_chain_audio)

subsection \<open>The job timeout and the tool timeouts\<close>

lemma example_acquire_job_timeouts:
  "job_timeouts (new_events world0 (snd (ensure_cache_request env0 ''abc12345678'' world0)))
   = [3600]"
  by (simp add: ensure_cache_request_acquires[OF world0_get_media not_ready_None world0_lookup]
                new_events_def job_timeouts_def)

lemma ensure_cache_request_job_timeouts:
  "\<forall>t \<in> set (job_timeouts (new_events w (snd (ensure_cache_request env video_id w)))). t = 3600"
  using ensure_cache_request_new_events[of w env video_id]
  by (auto simp: job_timeouts_def)

lemma download_av_job_timeouts:
  "sum_list (map snd (invocations (new_events w (snd (download_av_job env video_id w))))) \<le> 3600
   \<and> (length (invocations (new_events w (snd (download_av_job env video_id w)))) = 2
        \<longrightarrow> sum_list (map snd (invocations (new_events w (snd (download_av_job env video_id w)))))
              = 1800 + 1800)"
  using download_av_job_invocations[of w env video_id] by auto

text \<open>
  C5, as the code has it. The job timeout passed at enqueue time is 3600 seconds; each
  tool invocation of a job has a timeout of 1800 seconds and there are at most two; so
  the job timeout is never less than the sum of the tool timeouts of a job, and when the
  job makes both invocations it is equal to that sum (1800 + 1800), not greater.
\<close>

theorem job_timeout_equals_sum_of_tool_timeouts:
  "\<forall>t \<in> set (job_timeouts (new_events w (snd (ensure_cache_request env video_id w)))).
      t = 3600
      \<and> sum_list (map snd (invocations (new_events w2 (snd (download_av_job env2 vid2 w2)))))
          \<le> t
      \<and> (length (invocations (new_events w2 (snd (download_av_job env2 vid2 w2)))) = 2
          \<longrightarrow> map snd (invocations (new_events w2 (snd (download_av_job env2 vid2 w2))))
                = [1800, 1800]
            \<and> sum_list (map snd (invocations (new_events w2 (snd (download_av_job env2 vid2 w2)))))
                = t)"
proof
  fix t
  assume "t \<in> set (job_timeouts (new_events w (snd (ensure_cache_request env video_id w))))"
  then have t: "t = 3600" using ensure_cache_request_job_timeouts by blast
  have two: "map snd (invocations (new_events w2 (snd (download_av_job env2 vid2 w2))))
             = [1800, 1800]"
    if "length (invocations (new_events w2 (snd (download_av_job env2 vid2 w2)))) = 2"
    using that download_av_job_invocations[of w2 env2 vid2] by auto
  show "t = 3600
      \<and> sum_list (map snd (invocations (new_events w2 (snd (download_av_job env2 vid2 w2)))))
          \<le> t
      \<and> (length (invocations (new_events w2 (snd (download_av_job env2 vid2 w2)))) = 2
          \<longrightarrow> map snd (invocations (new_events w2 (snd (download_av_job env2 vid2 w2))))
                = [1800, 1800]
            \<and> sum_list (map snd (invocations (new_events w2 (snd (download_av_job env2 vid2 w2)))))
                = t)"
    using t two download_av_job_timeouts[of w2 env2 vid2] by simp
qed

theorem job_timeout_equals_sum_of_tool_timeouts_witness:
  "(3600::nat) \<in> set (job_timeouts (new_events world0
                         (snd (ensure_cache_request env0 ''abc12345678'' world0))))
   \<and> length (invocations (new_events world_locked
               (snd (download_av_job env_ok ''abc12345678'' world_locked)))) = 2
   \<and> map snd (invocations (new_events world_locked
               (snd (download_av_job env_ok ''abc12345678'' world_locked)))) = [1800, 1800]
   \<and> sum_list (map snd (invocations (new_events world_locked
               (snd (download_av_job env_ok ''abc12345678'' world_locked))))) = (3600::nat)"
proof -
  have m: "(3600::nat) \<in> set (job_timeouts (new_events world0
                         (snd (ensure_cache_request env0 ''abc12345678'' world0))))"
    by (simp add: example_acquire_job_timeouts)
  have l: "length (invocations (new_events world_locked
               (snd (download_av_job env_ok ''abc12345678'' world_locked)))) = 2"
    by (simp add: example_ok_invocations)
  from job_timeout_equals_sum_of_tool_timeouts[of world0 env0 "''abc12345678''"
         world_locked env_ok "''abc12345678''"] m l
  show ?thesis by blast
qed

text \<open>
  The claim as stated fails: for the job enqueued on the empty store and a job that
  makes both invocations, the sum of the tool timeouts is not less than the job timeout.
\<close>

theorem job_timeout_exceeds_sum_counterexample:
  "\<not> (\<forall>t \<in> set (job_timeouts (new_events world0
                     (snd (ensure_cache_request env0 ''abc12345678'' world0)))).
        sum_list (map snd (invocations (new_events world_locked
                     (snd (download_av_job env_ok ''abc12345678'' world_locked))))) < t)"
  by (simp add: example_acquire_job_timeouts example_ok_invocations)

subsection \<open>The exit before the try block\<close>

definition world_unwritable :: "nat world" where
  \<comment> \<open>as \<open>world_locked\<close>, on a host where the media directory cannot be created (it is a
      file, or the worker has no permission): \<open>os.makedirs\<close> raises\<close>
  "world_unwritable = world_locked\<lparr>fs := fs_example\<lparr>makedirs_ok := (\<lambda>_. False)\<rparr>\<rparr>"

text \<open>
  C8 at a failing input. With the lock of \<open>abc12345678\<close> held and a media directory
  that cannot be created, the job ends with the error of \<open>os.makedirs\<close>, issues no
  command at all, and the lock is still held afterwards.
\<close>

theorem makedirs_failure_leaves_lock:
  "download_av_job env0 ''abc12345678'' world_unwritable = (Inl OSError, world_unwritable)
   \<and> lookup world_unwritable (lock_key ''abc12345678'') = Some ''1''
   \<and> lookup (snd (download_av_job env0 ''abc12345678'' world_unwritable))
        (lock_key ''abc12345678'') = Some ''1''
   \<and> new_events world_unwritable (snd (download_av_job env0 ''abc12345678'' world_unwritable))
       = []"
proof -
  have run: "download_av_job env0 ''abc12345678'' world_unwritable
             = (Inl OSError, world_unwritable)"
    by (simp add: download_av_job_def world_unwritable_def)
  have held: "lookup world_unwritable (lock_key ''abc12345678'') = Some ''1''"
    by (simp add: lookup_def world_unwritable_def world_locked_def live_def)
  show ?thesis by (simp add: run held new_events_def)
qed

section \<open>Concurrent callers of the Dedup Coordinator\<close>

text \<open>
  Several request threads run \<open>ensure_cache_request\<close> for the same identifier at once.
  Each of its commands on the store and the queue is atomic, and a caller keeps no other
  shared state, so a concurrent execution is an interleaving of the callers' commands
  and of the passing of time. A caller is at one of the program points of
  \<open>ensure_cache_request\<close>: before \<open>get_media\<close>, before the conditional set, before
  \<open>enqueue\<close>, before the set of the last job id, or at one of its exits.
\<close>

datatype pc =
    AtGetMedia             \<comment> \<open>before \<open>media = get_media(video_id)\<close>\<close>
  | AtSetNX                \<comment> \<open>before \<open>r.set(lock_key, b"1", nx=True, ex=600)\<close>\<close>
  | AtEnqueue              \<comment> \<open>the lock was acquired; before \<open>q.enqueue\<close>\<close>
  | AtSetLastJob string    \<comment> \<open>the job with this id was enqueued; before the last \<open>r.set\<close>\<close>
  | Raised py_error        \<comment> \<open>\<open>get_media\<close> raised\<close>
  | ReturnedReady          \<comment> \<open>\<open>return ""\<close>: the record is ready\<close>
  | ReturnedPending        \<comment> \<open>\<open>return ""\<close>: the lock is held by another caller\<close>
  | ReturnedJob string     \<comment> \<open>\<open>return job.id\<close>\<close>

fun result_of :: "pc \<Rightarrow> (py_error + string) option" where
  \<comment> \<open>what the call has returned or raised, once it is over\<close>
  "result_of (Raised e) = Some (Inl e)"
| "result_of ReturnedReady = Some (Inr '''')"
| "result_of ReturnedPending = Some (Inr '''')"
| "result_of (ReturnedJob jid) = Some (Inr jid)"
| "result_of _ = None"

definition finished :: "pc \<Rightarrow> bool" where
  "finished p \<longleftrightarrow> result_of p \<noteq> None"

fun caller_step :: "'t env \<Rightarrow> string \<Rightarrow> pc \<Rightarrow> 't world \<Rightarrow> pc \<times> 't world" where
  \<comment> \<open>the next command of a caller of \<open>ensure_cache_request(video_id)\<close>\<close>
  "caller_step env video_id AtGetMedia w =
     (case get_media video_id w of
        (Inl e, w1) \<Rightarrow> (Raised e, w1)
      | (Inr media, w1) \<Rightarrow> (if media_ready media then ReturnedReady else AtSetNX, w1))"
| "caller_step env video_id AtSetNX w =
     (case redis_set_nx (lock_key video_id) ''1'' 600 w of
        (got_lock, w2) \<Rightarrow> (if \<not> got_lock then ReturnedPending else AtEnqueue, w2))"
| "caller_step env video_id AtEnqueue w =
     (case enqueue env video_id 3600 w of (jid, w3) \<Rightarrow> (AtSetLastJob jid, w3))"
| "caller_step env video_id (AtSetLastJob jid) w =
     (ReturnedJob jid, redis_set (last_job_key video_id) (py_b jid) (Some 3600) w)"
| "caller_step env video_id p w = (p, w)"

datatype action =
    Run nat     \<comment> \<open>the caller with this index issues its next command\<close>
  | Tick nat    \<comment> \<open>this many milliseconds pass\<close>

fun exec :: "'t env \<Rightarrow> string \<Rightarrow> action list \<Rightarrow> pc list \<times> 't world \<Rightarrow> pc list \<times> 't world" where
  \<comment> \<open>an interleaving: the callers' program points and the shared state after a schedule\<close>
  "exec env video_id [] c = c"
| "exec env video_id (Run i # sched) (pcs, w) =
     (if i < length pcs
      then (case caller_step env video_id (pcs ! i) w of
              (p, w') \<Rightarrow> exec env video_id sched (pcs[i := p], w'))
      else exec env video_id sched (pcs, w))"
| "exec env video_id (Tick d # sched) (pcs, w) = exec env video_id sched (pcs, advance d w)"

fun elapsed :: "action list \<Rightarrow> nat" where
  \<comment> \<open>the time that passes in a schedule, in milliseconds\<close>
  "elapsed [] = 0"
| "elapsed (Run i # sched) = elapsed sched"
| "elapsed (Tick d # sched) = d + elapsed sched"


text \<open>
  A caller that runs alone, its four commands one after the other, is
  \<open>ensure_cache_request\<close>.
\<close>

lemma caller_alone_is_ensure_cache_request:
  "\<exists>p. exec env video_id [Run 0, Run 0, Run 0, Run 0] ([AtGetMedia], w)
          = ([p], snd (ensure_cache_request env video_id w))
       \<and> result_of p = Some (fst (ensure_cache_request env video_id w))"
proof (cases "fst (get_media video_id w)")
  case (Inl e)
  then obtain w1 where g: "get_media video_id w = (Inl e, w1)"
    by (metis prod.collapse)
  show ?thesis
    by (simp add: g ensure_cache_request_def)
next
  case (Inr media)
  then obtain w1 where g: "get_media video_id w = (Inr media, w1)"
    by (metis prod.collapse)
  show ?thesis
  proof (cases "media_ready media")
    case True
    then show ?thesis by (simp add: g ensure_cache_request_def)
  next
    case False
    obtain got w2 where nx: "redis_set_nx (lock_key video_id) ''1'' 600 w1 = (got, w2)"
      by (metis prod.collapse)
    show ?thesis
    proof (cases got)
      case False
      with \<open>\<not> media_ready media\<close> show ?thesis
        by (simp add: g nx ensure_cache_request_def)
    next
      case True
      obtain jid w3 where enq: "enqueue env video_id 3600 w2 = (jid, w3)"
        by (metis prod.collapse)
      with True \<open>\<not> media_ready media\<close> show ?thesis
        by (simp add: g nx ensure_cache_request_def)
    qed
  qed
qed

subsection \<open>One acquisition while the lock lives\<close>





















lemma advance_fields [simp]:
  "kv (advance d w) = kv w" "queue (advance d w) = queue w" "issued (advance d w) = issued w"
  "trace (advance d w) = trace w" "now (advance d w) = now w + d" "fs (advance d w) = fs w"
  by (simp_all add: advance_def)























end
